theory Spec2Isabelle
  imports Complex_Main "HOL-Library.Sublist"
begin

section \<open>Strings\<close>

text \<open>
  Python strings are sequences of code points. They are modelled as \<^typ>\<open>string\<close>, whose
  characters are the code points 0 to 255; the classification below is the one Python's
  Unicode tables give on that range: \<open>\s\<close> and \<open>str.strip\<close> use the same whitespace
  class, \<open>\w\<close> is alphanumeric or underscore, and \<open>str.lower\<close> maps one character to one
  character there.
\<close>

definition is_space :: "char \<Rightarrow> bool" where
  "is_space c =
     (let n = (of_char c :: nat)
      in (9 \<le> n \<and> n \<le> 13) \<or> (28 \<le> n \<and> n \<le> 32) \<or> n = 133 \<or> n = 160)"

definition is_word :: "char \<Rightarrow> bool" where
  "is_word c =
     (let n = (of_char c :: nat)
      in (48 \<le> n \<and> n \<le> 57) \<or> (65 \<le> n \<and> n \<le> 90) \<or> n = 95 \<or> (97 \<le> n \<and> n \<le> 122)
         \<or> n = 170 \<or> n = 178 \<or> n = 179 \<or> n = 181 \<or> n = 185 \<or> n = 186
         \<or> (188 \<le> n \<and> n \<le> 190) \<or> (192 \<le> n \<and> n \<le> 214)
         \<or> (216 \<le> n \<and> n \<le> 246) \<or> (248 \<le> n \<and> n \<le> 255))"

definition lower_char :: "char \<Rightarrow> char" where
  "lower_char c =
     (let n = (of_char c :: nat)
      in if (65 \<le> n \<and> n \<le> 90) \<or> (192 \<le> n \<and> n \<le> 214) \<or> (216 \<le> n \<and> n \<le> 222)
         then char_of (n + 32) else c)"

definition lower :: "string \<Rightarrow> string" where
  "lower s = map lower_char s"

text \<open>\<open>re.sub(r"\s+", " ", s)\<close>: every maximal run of whitespace becomes one space.\<close>

function sub_spaces :: "string \<Rightarrow> string" where
  "sub_spaces [] = []"
| "sub_spaces (c # cs) =
     (if is_space c then CHR '' '' # sub_spaces (dropWhile is_space cs)
      else c # sub_spaces cs)"
  by pat_completeness auto
termination
  by (relation "measure length") (auto simp: length_dropWhile_le less_Suc_eq_le)

definition strip :: "string \<Rightarrow> string" where
  "strip s = rev (dropWhile is_space (rev (dropWhile is_space s)))"

definition normalize_whitespace :: "string \<Rightarrow> string" where
  "normalize_whitespace text =
     strip (sub_spaces (map (\<lambda>c. if c = char_of (160 :: nat) then CHR '' '' else c) text))"

text \<open>\<open>re.sub(r"[^\w\s]", "", name.lower())\<close> deletes the other characters.\<close>

definition normalize_author_name :: "string \<Rightarrow> string" where
  "normalize_author_name name =
     normalize_whitespace (filter (\<lambda>c. is_word c \<or> is_space c) (lower name))"

text \<open>\<open>re.sub(r"[^\w\s]", " ", title.lower())\<close> replaces them by a space.\<close>

definition normalize_title :: "string \<Rightarrow> string" where
  "normalize_title t =
     normalize_whitespace (map (\<lambda>c. if is_word c \<or> is_space c then c else CHR '' '') (lower t))"

text \<open>
  The words of a string as \<open>str.split()\<close> gives them: its maximal runs of characters that
  are not whitespace. Collapsing whitespace is joining the words by single spaces.
\<close>

function split_ws :: "string \<Rightarrow> string list" where
  "split_ws s =
     (case dropWhile is_space s of
        [] \<Rightarrow> []
      | c # cs \<Rightarrow> (c # takeWhile (\<lambda>x. \<not> is_space x) cs)
                  # split_ws (dropWhile (\<lambda>x. \<not> is_space x) cs))"
  by pat_completeness auto
termination
proof (relation "measure length", goal_cases)
  case 1
  then show ?case by simp
next
  case (2 s c cs)
  have "length (dropWhile (\<lambda>x. \<not> is_space x) cs) \<le> length cs" by (rule length_dropWhile_le)
  also have "length cs < length (dropWhile is_space s)" using 2 by simp
  also have "\<dots> \<le> length s" by (rule length_dropWhile_le)
  finally show ?case by simp
qed

declare split_ws.simps [simp del]

text \<open>\<open>sep.join(parts)\<close>\<close>

fun join :: "string \<Rightarrow> string list \<Rightarrow> string" where
  "join sep [] = []"
| "join sep [p] = p"
| "join sep (p # q # ps) = p @ sep @ join sep (q # ps)"

text \<open>\<open>str.rstrip()\<close>; \<^const>\<open>strip\<close> is it after the leading whitespace is dropped.\<close>

definition rstrip :: "string \<Rightarrow> string" where
  "rstrip s = rev (dropWhile is_space (rev s))"

section \<open>Records\<close>

record ScholarRecord =
  title :: string
  url :: "string option"
  authors_raw :: string
  snippet :: string
  raw_meta :: string
  year :: "int option"
  cluster_id :: "string option"
  page_index :: int
  authors_list :: "string list"
  authors_truncated :: bool

record EnrichedRecord = ScholarRecord +
  first_author :: "string option"
  first_author_affiliations :: "string list"
  doi :: "string option"
  crossref_year :: "int option"
  journal :: "string option"
  crossref_score :: "rat option"
  crossref_status :: string
  authors_crossref :: "string list"
  authors_crossref_affiliations :: "string list list"
  final_authors :: "string list"
  final_author_affiliations :: "string list list"
  author_source :: string

section \<open>Self-citation filter\<close>

definition ORIGINAL_AUTHORS :: "string set" where
  "ORIGINAL_AUTHORS =
     {''peter c ma'', ''pc ma'', ''p c ma'', ''yu lv'', ''y lv'', ''matthias ihme'', ''m ihme''}"

text \<open>The denylist of \<open>openalex_citations.py\<close> has one more variant.\<close>

definition ORIGINAL_AUTHORS_openalex :: "string set" where
  "ORIGINAL_AUTHORS_openalex =
     {''peter c ma'', ''pc ma'', ''p c ma'', ''peter ma'', ''yu lv'', ''y lv'',
      ''matthias ihme'', ''m ihme''}"

text \<open>\<open>{normalize_author_name(a) for a in names if a}\<close>\<close>

definition normalized_names :: "string list \<Rightarrow> string set" where
  "normalized_names names = set (map normalize_author_name (filter (\<lambda>a. a \<noteq> []) names))"

text \<open>\<open>record.final_authors or record.authors_list\<close>\<close>

definition author_names :: "EnrichedRecord \<Rightarrow> string list" where
  "author_names r = (if final_authors r \<noteq> [] then final_authors r else authors_list r)"

fun filter_self_citations :: "EnrichedRecord list \<Rightarrow> EnrichedRecord list" where
  "filter_self_citations [] = []"
| "filter_self_citations (r # rs) =
     (if normalized_names (author_names r) \<inter> ORIGINAL_AUTHORS \<noteq> {}
      then filter_self_citations rs
      else r # filter_self_citations rs)"

definition should_exclude_self_citation :: "string list \<Rightarrow> bool" where
  "should_exclude_self_citation authors =
     (normalized_names authors \<inter> ORIGINAL_AUTHORS_openalex \<noteq> {})"

section \<open>Crossref enrichment\<close>

text \<open>
  A cache entry is the dictionary \<open>query_crossref\<close> stores and returns; a key that is absent
  is \<open>None\<close>, and so is a null value of a key other than \<open>status\<close>, which \<open>info.get\<close> reads
  the same way. Entries with a null \<open>status\<close>, which the code never writes, are left out.
  Scores are the exact values of Python's floats.
\<close>

record crossref_info =
  info_status :: "string option"
  info_error :: "string option"
  info_score :: "rat option"
  info_doi :: "string option"
  info_journal :: "string option"
  info_year :: "int option"
  info_first_author :: "string option"
  info_first_affiliations :: "string list option"
  info_authors :: "string list option"
  info_authors_affiliations :: "string list list option"

definition empty_info :: crossref_info where
  "empty_info =
     \<lparr>info_status = None, info_error = None, info_score = None, info_doi = None,
      info_journal = None, info_year = None, info_first_author = None,
      info_first_affiliations = None, info_authors = None,
      info_authors_affiliations = None\<rparr>"

text \<open>
  The works of a Crossref response. A string field that is absent is the empty string,
  which is what \<open>author.get("given", "")\<close> and the truth tests of the code make of it.
\<close>

record crossref_author =
  au_given :: string
  au_family :: string
  au_name :: string
  au_affiliation :: "string list"

record crossref_item =
  item_title :: "string list"
  item_author :: "crossref_author list"
  item_issued :: "int option list list"
  item_DOI :: "string option"
  item_container_title :: "string list"

text \<open>
  \<open>session.get(...)\<close>, \<open>raise_for_status()\<close> and \<open>response.json()\<close> inside the
  \<open>try\<close>: either an exception, with its text, or the list of items.
\<close>

datatype response = Failure string | Items "crossref_item list"

text \<open>The state a run threads through: the cache dictionary and the queries sent so far.\<close>

record enrich_state =
  cache :: "string \<rightharpoonup> crossref_info"
  queries :: "string list"

text \<open>The literal \<open>0.6\<close> is the double \<open>0x1.3333333333333p-1\<close>.\<close>

definition threshold :: rat where
  "threshold = 5404319552844595 / 9007199254740992"

text \<open>
  The loop over \<open>items\<close>, with \<open>best_item\<close> and \<open>best_score\<close> as accumulators;
  \<open>sequence_score\<close> (\<open>difflib.SequenceMatcher.ratio\<close>) is the parameter \<open>sc\<close>.
\<close>

definition item_score ::
  "(string \<Rightarrow> string \<Rightarrow> rat) \<Rightarrow> string \<Rightarrow> crossref_item \<Rightarrow> rat option" where
  "item_score sc norm_title item =
     (case item_title item of
        [] \<Rightarrow> None
      | item_title0 # _ \<Rightarrow> Some (sc (normalize_title item_title0) norm_title))"

fun select_best ::
  "(string \<Rightarrow> string \<Rightarrow> rat) \<Rightarrow> string \<Rightarrow> crossref_item list
     \<Rightarrow> crossref_item option \<times> rat \<Rightarrow> crossref_item option \<times> rat" where
  "select_best sc norm_title [] acc = acc"
| "select_best sc norm_title (item # items) (best_item, best_score) =
     (case item_score sc norm_title item of
        None \<Rightarrow> select_best sc norm_title items (best_item, best_score)
      | Some score \<Rightarrow>
          if score > best_score
          then select_best sc norm_title items (Some item, score)
          else select_best sc norm_title items (best_item, best_score))"

text \<open>The scores the loop computes, in order: one for each item that has a title.\<close>

definition scores ::
  "(string \<Rightarrow> string \<Rightarrow> rat) \<Rightarrow> string \<Rightarrow> crossref_item list \<Rightarrow> rat list" where
  "scores sc norm_title items = List.map_filter (item_score sc norm_title) items"

text \<open>
  The sentinel the code gives an author without a name. In the code it is a literal outside
  the code points of \<^typ>\<open>string\<close>, so no name of the model is equal to it; here it is a
  string that begins with a space, which no result of \<^const>\<open>normalize_whitespace\<close> does.
\<close>

definition missing :: string where
  "missing = '' (missing)''"

definition author_name :: "crossref_author \<Rightarrow> string" where
  "author_name author =
     (let name_parts = filter (\<lambda>part. part \<noteq> []) [au_given author, au_family author];
          name = (if name_parts \<noteq> []
                  then normalize_whitespace (join '' '' name_parts)
                  else normalize_whitespace (au_name author))
      in if name = [] then missing else name)"

definition author_affiliations :: "crossref_author \<Rightarrow> string list" where
  "author_affiliations author =
     map normalize_whitespace (filter (\<lambda>aff. aff \<noteq> []) (au_affiliation author))"

definition ok_info :: "crossref_item \<Rightarrow> rat \<Rightarrow> crossref_info" where
  "ok_info best_item best_score =
     (let authors = item_author best_item;
          authors_full = map author_name authors;
          authors_affiliations = map author_affiliations authors;
          first_author = (case authors_full of [] \<Rightarrow> None
                          | name # _ \<Rightarrow> if name \<noteq> missing then Some name else None);
          first_affiliations = (case authors_affiliations of [] \<Rightarrow> [] | a # _ \<Rightarrow> a);
          crossref_year = (case item_issued best_item of
                             (y # _) # _ \<Rightarrow> y
                           | _ \<Rightarrow> None)
      in \<lparr>info_status = Some ''ok'', info_error = None, info_score = Some best_score,
          info_doi = item_DOI best_item,
          info_journal = (case item_container_title best_item of [] \<Rightarrow> None
                          | j # _ \<Rightarrow> Some j),
          info_year = crossref_year,
          info_first_author = first_author,
          info_first_affiliations = Some first_affiliations,
          info_authors = Some authors_full,
          info_authors_affiliations = Some authors_affiliations\<rparr>)"

definition error_info :: "string \<Rightarrow> crossref_info" where
  "error_info exc = empty_info\<lparr>info_status := Some ''error'', info_error := Some exc\<rparr>"

definition no_match_info :: "rat \<Rightarrow> crossref_info" where
  "no_match_info best_score =
     empty_info\<lparr>info_status := Some ''no_match'', info_score := Some best_score\<rparr>"

definition store :: "string \<Rightarrow> string \<Rightarrow> crossref_info \<Rightarrow> enrich_state \<Rightarrow> enrich_state" where
  "store t norm_title info st =
     st\<lparr>cache := (cache st)(norm_title \<mapsto> info), queries := queries st @ [t]\<rparr>"

definition query_crossref ::
  "(string \<Rightarrow> response) \<Rightarrow> (string \<Rightarrow> string \<Rightarrow> rat) \<Rightarrow> string \<Rightarrow> enrich_state
     \<Rightarrow> crossref_info \<times> enrich_state" where
  "query_crossref session sc t st =
     (let norm_title = normalize_title t
      in case cache st norm_title of
           Some info \<Rightarrow> (info, st)
         | None \<Rightarrow>
             (case session t of
                Failure exc \<Rightarrow>
                  (error_info exc, store t norm_title (error_info exc) st)
              | Items items \<Rightarrow>
                  (case select_best sc norm_title items (None, 0) of
                     (None, best_score) \<Rightarrow>
                       (no_match_info best_score,
                        store t norm_title (no_match_info best_score) st)
                   | (Some best_item, best_score) \<Rightarrow>
                       if best_score < threshold
                       then (no_match_info best_score,
                             store t norm_title (no_match_info best_score) st)
                       else (ok_info best_item best_score,
                             store t norm_title (ok_info best_item best_score) st))))"

text \<open>
  \<open>while len(crossref_affiliations) < len(crossref_authors): crossref_affiliations.append([])\<close>
\<close>

function pad_affiliations :: "string list list \<Rightarrow> nat \<Rightarrow> string list list" where
  "pad_affiliations affs n =
     (if length affs < n then pad_affiliations (affs @ [[]]) n else affs)"
  by pat_completeness auto
termination
  by (relation "measure (\<lambda>(affs, n). n - length affs)") auto

definition align_affiliations :: "string list \<Rightarrow> string list list \<Rightarrow> string list list" where
  "align_affiliations crossref_authors crossref_affiliations =
     (if crossref_affiliations \<noteq> [] \<and> length crossref_affiliations \<noteq> length crossref_authors
      then pad_affiliations (take (length crossref_authors) crossref_affiliations)
             (length crossref_authors)
      else crossref_affiliations)"

text \<open>\<open>info.get("authors") or []\<close>\<close>

definition get_authors :: "crossref_info \<Rightarrow> string list" where
  "get_authors info = (case info_authors info of None \<Rightarrow> [] | Some a \<Rightarrow> a)"

text \<open>\<open>EnrichedRecord(**asdict(record))\<close>: the other fields have their defaults.\<close>

definition from_scholar :: "ScholarRecord \<Rightarrow> EnrichedRecord" where
  "from_scholar record =
     \<lparr>title = title record, url = url record, authors_raw = authors_raw record,
      snippet = snippet record, raw_meta = raw_meta record, year = year record,
      cluster_id = cluster_id record, page_index = page_index record,
      authors_list = authors_list record, authors_truncated = authors_truncated record,
      first_author = None, first_author_affiliations = [], doi = None, crossref_year = None,
      journal = None, crossref_score = None, crossref_status = ''unqueried'',
      authors_crossref = [], authors_crossref_affiliations = [], final_authors = [],
      final_author_affiliations = [], author_source = ''unknown''\<rparr>"

text \<open>The body of the loop of \<open>enrich_records\<close> after the query, for one record.\<close>

definition enrich_one :: "ScholarRecord \<Rightarrow> crossref_info \<Rightarrow> EnrichedRecord" where
  "enrich_one record info =
     (let enriched_record = from_scholar record;
          crossref_authors = get_authors info;
          crossref_affiliations0 =
            (case info_authors_affiliations info of
               None \<Rightarrow> map (\<lambda>_. []) crossref_authors
             | Some [] \<Rightarrow> map (\<lambda>_. []) crossref_authors
             | Some affs \<Rightarrow> affs);
          crossref_affiliations = align_affiliations crossref_authors crossref_affiliations0;
          (final_authors', final_affiliations, source) =
            (if crossref_authors \<noteq> []
             then (crossref_authors, crossref_affiliations, ''crossref'')
             else if authors_list record \<noteq> []
             then (authors_list record, map (\<lambda>_. []) (authors_list record),
                   if authors_truncated record then ''scholar_truncated'' else ''scholar'')
             else ([], [], ''unknown''))
      in enriched_record
         \<lparr>crossref_status := (case info_status info of None \<Rightarrow> ''unknown'' | Some s \<Rightarrow> s),
          crossref_score := info_score info,
          doi := info_doi info,
          journal := info_journal info,
          authors_crossref := crossref_authors,
          authors_crossref_affiliations := crossref_affiliations,
          author_source := source,
          final_authors := final_authors',
          final_author_affiliations := final_affiliations,
          first_author :=
            (case final_authors' of [] \<Rightarrow> first_author enriched_record | a # _ \<Rightarrow> Some a),
          first_author_affiliations :=
            (case final_authors' of
               [] \<Rightarrow> first_author_affiliations enriched_record
             | _ # _ \<Rightarrow> (case final_affiliations of
                           [] \<Rightarrow> first_author_affiliations enriched_record
                         | f # _ \<Rightarrow> f)),
          crossref_year := (case info_year info of None \<Rightarrow> year record | Some y \<Rightarrow> Some y)\<rparr>)"

fun enrich_loop ::
  "(string \<Rightarrow> response) \<Rightarrow> (string \<Rightarrow> string \<Rightarrow> rat) \<Rightarrow> ScholarRecord list \<Rightarrow> enrich_state
     \<Rightarrow> EnrichedRecord list \<times> enrich_state" where
  "enrich_loop session sc [] st = ([], st)"
| "enrich_loop session sc (record # records) st =
     (case query_crossref session sc (title record) st of
        (info, st') \<Rightarrow>
          (case enrich_loop session sc records st' of
             (enriched, st'') \<Rightarrow> (enrich_one record info # enriched, st'')))"

text \<open>
  \<open>enrich_records\<close>, given the dictionary \<open>load_crossref_cache\<close> returned; the cache of the
  final state is the one \<open>save_crossref_cache\<close> writes.
\<close>

definition enrich_records ::
  "(string \<Rightarrow> response) \<Rightarrow> (string \<Rightarrow> string \<Rightarrow> rat) \<Rightarrow> (string \<rightharpoonup> crossref_info)
     \<Rightarrow> ScholarRecord list \<Rightarrow> EnrichedRecord list \<times> enrich_state" where
  "enrich_records session sc loaded records =
     enrich_loop session sc records \<lparr>cache = loaded, queries = []\<rparr>"

section \<open>Deduplication\<close>

text \<open>\<open>if record.cluster_id:\<close> holds of a cluster id that is neither \<open>None\<close> nor empty.\<close>

definition record_key :: "ScholarRecord \<Rightarrow> string" where
  "record_key record =
     (case cluster_id record of
        Some c \<Rightarrow> if c \<noteq> [] then ''cluster:'' @ c
                  else ''title:'' @ normalize_title (title record)
      | None \<Rightarrow> ''title:'' @ normalize_title (title record))"

text \<open>The inner loop of \<open>main\<close> over the records of one scope.\<close>

fun add_records ::
  "ScholarRecord list \<Rightarrow> ScholarRecord list \<times> string set
     \<Rightarrow> ScholarRecord list \<times> string set" where
  "add_records [] acc = acc"
| "add_records (record # records) (combined_records, seen_keys) =
     (let key = record_key record
      in if key \<in> seen_keys then add_records records (combined_records, seen_keys)
         else add_records records (combined_records @ [record], insert key seen_keys))"

text \<open>The records one run of that loop appends, given the keys seen before it.\<close>

definition kept :: "string set \<Rightarrow> ScholarRecord list \<Rightarrow> ScholarRecord list" where
  "kept seen_keys records = fst (add_records records ([], seen_keys))"

text \<open>\<open>scraped_by_year.get(year, [])\<close>\<close>

definition get_scope ::
  "(int option \<rightharpoonup> ScholarRecord list) \<Rightarrow> int option \<Rightarrow> ScholarRecord list" where
  "get_scope scraped_by_year y = (case scraped_by_year y of None \<Rightarrow> [] | Some rs \<Rightarrow> rs)"

fun add_years ::
  "(int option \<rightharpoonup> ScholarRecord list) \<Rightarrow> int list \<Rightarrow> ScholarRecord list \<times> string set
     \<Rightarrow> ScholarRecord list \<times> string set" where
  "add_years scraped_by_year [] acc = acc"
| "add_years scraped_by_year (y # years) acc =
     add_years scraped_by_year years (add_records (get_scope scraped_by_year (Some y)) acc)"

text \<open>
  \<open>combined_records\<close> of \<open>main\<close>: the years from 2016 to the current one, then the
  fallback scope \<open>None\<close>.
\<close>

definition combine_records ::
  "int \<Rightarrow> (int option \<rightharpoonup> ScholarRecord list) \<Rightarrow> ScholarRecord list" where
  "combine_records current_year scraped_by_year =
     fst (add_records (get_scope scraped_by_year None)
            (add_years scraped_by_year [2016..current_year] ([], {})))"

text \<open>The records of all scopes, in the order \<open>main\<close> visits them.\<close>

definition all_scopes ::
  "int \<Rightarrow> (int option \<rightharpoonup> ScholarRecord list) \<Rightarrow> ScholarRecord list" where
  "all_scopes current_year scraped_by_year =
     concat (map (\<lambda>y. get_scope scraped_by_year (Some y)) [2016..current_year])
     @ get_scope scraped_by_year None"

section \<open>Persisted stores\<close>

datatype json =
  JNull | JBool bool | JNum rat | JStr string | JArr "json list" | JObj "(string \<times> json) list"

text \<open>
  What the file at a path is to \<open>Path.exists\<close>, \<open>Path.read_text(encoding="utf-8")\<close> and
  \<open>json.loads\<close>: absent; present but not UTF-8, so that \<open>read_text\<close> raises; text that
  \<open>json.loads\<close> rejects with \<open>JSONDecodeError\<close>; or a JSON document.
\<close>

datatype stored = Missing | Undecodable | Malformed | Document json

datatype py_error = UnicodeDecodeError | TypeError

definition load_crossref_cache :: "stored \<Rightarrow> py_error + (string \<times> json) list" where
  "load_crossref_cache f =
     (case f of
        Missing \<Rightarrow> Inr []
      | Undecodable \<Rightarrow> Inl UnicodeDecodeError
      | Malformed \<Rightarrow> Inr []
      | Document data \<Rightarrow> (case data of JObj d \<Rightarrow> Inr d | _ \<Rightarrow> Inr []))"

definition required_fields :: "string list" where
  "required_fields =
     [''title'', ''url'', ''authors_raw'', ''snippet'', ''raw_meta'', ''year'', ''cluster_id'',
      ''page_index'']"

definition optional_fields :: "string list" where
  "optional_fields = [''authors_list'', ''authors_truncated'']"

text \<open>
  \<open>ScholarRecord(**item)\<close> raises \<open>TypeError\<close> unless \<open>item\<close> is a mapping whose keys are
  fields of the dataclass and include those without a default. The dataclass does not look
  at the values, so a loaded record is the object it was built from.
\<close>

definition constructs :: "json \<Rightarrow> bool" where
  "constructs item =
     (case item of
        JObj kvs \<Rightarrow> set (map fst kvs) \<subseteq> set (required_fields @ optional_fields)
                    \<and> set required_fields \<subseteq> set (map fst kvs)
      | _ \<Rightarrow> False)"

definition load_cached_records :: "stored \<Rightarrow> py_error + json list" where
  "load_cached_records f =
     (case f of
        Missing \<Rightarrow> Inr []
      | Undecodable \<Rightarrow> Inl UnicodeDecodeError
      | Malformed \<Rightarrow> Inr []
      | Document data \<Rightarrow>
          (case data of
             JArr items \<Rightarrow> Inr (filter constructs items)
           | JObj kvs \<Rightarrow> Inr (filter constructs (map (\<lambda>kv. JStr (fst kv)) kvs))
           | JStr s \<Rightarrow> Inr (filter constructs (map (\<lambda>c. JStr [c]) s))
           | _ \<Rightarrow> Inl TypeError))"

text \<open>\<open>load_json\<close> of \<open>openalex_citations.py\<close>; Python's \<open>None\<close> is \<^const>\<open>JNull\<close>.\<close>

definition load_json :: "stored \<Rightarrow> py_error + json" where
  "load_json f =
     (case f of
        Missing \<Rightarrow> Inr JNull
      | Undecodable \<Rightarrow> Inl UnicodeDecodeError
      | Malformed \<Rightarrow> Inr JNull
      | Document data \<Rightarrow> Inr data)"

section \<open>Sample data\<close>

definition test_paper :: ScholarRecord where
  "test_paper =
     \<lparr>title = ''Test Paper'', url = None, authors_raw = ''J Smith, K Lee - Journal, 2020'',
      snippet = [], raw_meta = ''J Smith, K Lee - Journal, 2020'', year = Some 2020,
      cluster_id = None, page_index = 0, authors_list = [''J Smith'', ''K Lee''],
      authors_truncated = False\<rparr>"

definition john_smith :: crossref_author where
  "john_smith =
     \<lparr>au_given = ''John'', au_family = ''Smith'', au_name = [], au_affiliation = [''MIT'']\<rparr>"

definition test_item :: crossref_item where
  "test_item =
     \<lparr>item_title = [''Test paper.''], item_author = [john_smith], item_issued = [[Some 2021]],
      item_DOI = Some ''10.1000/x'', item_container_title = [''Journal'']\<rparr>"

definition other_item :: crossref_item where
  "other_item =
     \<lparr>item_title = [''Another work''], item_author = [], item_issued = [],
      item_DOI = None, item_container_title = []\<rparr>"

text \<open>A name with capitals, punctuation, a tab, a no-break space and spaces at both ends.\<close>

definition spaced_name :: string where
  "spaced_name = '' PETER'' @ [CHR 0x09] @ ''C.'' @ [CHR 0xA0, CHR '' ''] @ ''Ma! ''"

text \<open>Two listings of one cluster under different titles, and scopes that repeat records.\<close>

definition clustered :: ScholarRecord where
  "clustered = test_paper\<lparr>cluster_id := Some ''c1''\<rparr>"

definition relisted :: ScholarRecord where
  "relisted = test_paper\<lparr>title := ''Another work'', cluster_id := Some ''c1''\<rparr>"

text \<open>Records without a cluster id: the title of the first in another spelling, and a
  different title.\<close>

definition retitled :: ScholarRecord where
  "retitled = test_paper\<lparr>title := ''test, PAPER!''\<rparr>"

definition other_paper :: ScholarRecord where
  "other_paper = test_paper\<lparr>title := ''Another work''\<rparr>"

definition sample_scopes :: "int option \<rightharpoonup> ScholarRecord list" where
  "sample_scopes =
     [Some 2016 \<mapsto> [clustered, test_paper], Some 2017 \<mapsto> [retitled, other_paper],
      None \<mapsto> [relisted, test_paper]]"

text \<open>A score for the samples: 1 on equal strings, 1/2 otherwise.\<close>

definition sample_score :: "string \<Rightarrow> string \<Rightarrow> rat" where
  "sample_score a b = (if a = b then 1 else 1 / 2)"

text \<open>A score that is the threshold on all strings.\<close>

definition boundary_score :: "string \<Rightarrow> string \<Rightarrow> rat" where
  "boundary_score a b = threshold"

definition sample_session :: "string \<Rightarrow> response" where
  "sample_session t =
     (if t = ''Test Paper'' then Items [other_item, test_item] else Failure ''timeout'')"

definition failing_session :: "string \<Rightarrow> response" where
  "failing_session t = Failure ''timeout''"

text \<open>Cache entries whose affiliation lists do not have the length of the author list.\<close>

definition padded_entry :: crossref_info where
  "padded_entry =
     empty_info\<lparr>info_status := Some ''ok'', info_authors := Some [''A B'', ''C D''],
       info_authors_affiliations := Some [[''X'']]\<rparr>"

definition long_entry :: crossref_info where
  "long_entry =
     empty_info\<lparr>info_status := Some ''ok'', info_authors := Some [''A B''],
       info_authors_affiliations := Some [[''X''], [''Y''], []]\<rparr>"

section \<open>Normal forms of the sample strings\<close>

lemma normalize_title_samples:
  "normalize_title ''Test Paper'' = ''test paper''"
  "normalize_title ''test, PAPER!'' = ''test paper''"
  "normalize_title ''Test paper.'' = ''test paper''"
  "normalize_title ''Another work'' = ''another work''"
  by code_simp+

lemma normalize_author_name_samples:
  "normalize_author_name ''P.C. Ma'' = ''pc ma''"
  "normalize_author_name ''J Smith'' = ''j smith''"
  "normalize_author_name ''K Lee'' = ''k lee''"
  "normalize_author_name ''Peter Ma'' = ''peter ma''"
  "normalize_author_name ''P.  C. Ma'' = ''p c ma''"
  "normalize_author_name spaced_name = ''peter c ma''"
  by code_simp+

section \<open>Whitespace and the normal forms\<close>

lemma is_space_space: "is_space CHR '' ''"
  by (simp add: is_space_def)

lemma word_not_space: "is_word c \<Longrightarrow> \<not> is_space c"
  by (auto simp: is_word_def is_space_def Let_def)

lemma sub_spaces_head:
  "sub_spaces s = c # r \<Longrightarrow> is_space c \<Longrightarrow> s \<noteq> [] \<and> is_space (hd s)"
  by (cases s) (auto split: if_splits)

lemma dropWhile_head: "dropWhile P xs = y # ys \<Longrightarrow> \<not> P y"
  by (metis hd_dropWhile list.sel(1) list.distinct(1))

lemma sub_spaces_spaces: "c \<in> set (sub_spaces s) \<Longrightarrow> is_space c \<Longrightarrow> c = CHR '' ''"
proof (induction s rule: sub_spaces.induct)
  case 1
  then show ?case by simp
next
  case (2 d ds)
  then show ?case by (auto split: if_splits)
qed

lemma sub_spaces_set: "set (sub_spaces s) \<subseteq> insert CHR '' '' (set s)"
proof (induction s rule: sub_spaces.induct)
  case 1
  then show ?case by simp
next
  case (2 d ds)
  have "set (dropWhile is_space ds) \<subseteq> set ds" by (rule set_dropWhileD [THEN subsetI]) 
  with 2 show ?case by (auto split: if_splits)
qed

lemma filter_dropWhile_neg: "filter (\<lambda>x. \<not> P x) (dropWhile P xs) = filter (\<lambda>x. \<not> P x) xs"
  by (induction xs) auto

lemma sub_spaces_filter:
  "filter (\<lambda>c. \<not> is_space c) (sub_spaces s) = filter (\<lambda>c. \<not> is_space c) s"
proof (induction s rule: sub_spaces.induct)
  case 1
  then show ?case by simp
next
  case (2 d ds)
  then show ?case by (simp add: is_space_space filter_dropWhile_neg)
qed

lemma sub_spaces_no_double: "\<not> sublist ''  '' (sub_spaces s)"
proof (induction s rule: sub_spaces.induct)
  case 1
  then show ?case by simp
next
  case (2 d ds)
  show ?case
  proof (cases "is_space d")
    case True
    have "\<not> prefix '' '' (sub_spaces (dropWhile is_space ds))"
    proof
      assume "prefix '' '' (sub_spaces (dropWhile is_space ds))"
      then obtain r where r: "sub_spaces (dropWhile is_space ds) = CHR '' '' # r"
        by (auto simp: prefix_def)
      from sub_spaces_head [OF r is_space_space]
      obtain y ys where "dropWhile is_space ds = y # ys" "is_space y"
        by (cases "dropWhile is_space ds") auto
      then show False using dropWhile_head by metis
    qed
    with True 2 show ?thesis by (simp add: sublist_Cons_right)
  next
    case False
    then have "d \<noteq> CHR '' ''" using is_space_space by auto
    with False 2 show ?thesis by (simp add: sublist_Cons_right)
  qed
qed

lemma strip_sublist: "sublist (strip s) s"
proof -
  have "prefix (strip s) (dropWhile is_space s)"
    unfolding strip_def
    by (metis suffix_dropWhile suffix_to_prefix rev_rev_ident)
  moreover have "suffix (dropWhile is_space s) s" by (rule suffix_dropWhile)
  ultimately show ?thesis
    by (meson prefix_imp_sublist suffix_imp_sublist sublist_order.order_trans)
qed

lemma strip_set: "set (strip s) \<subseteq> set s"
  using strip_sublist set_mono_sublist by blast

lemma strip_filter:
  "filter (\<lambda>c. \<not> is_space c) (strip s) = filter (\<lambda>c. \<not> is_space c) s"
proof -
  have "filter (\<lambda>c. \<not> is_space c) (strip s)
      = rev (filter (\<lambda>c. \<not> is_space c) (dropWhile is_space (rev (dropWhile is_space s))))"
    by (simp add: strip_def rev_filter)
  also have "\<dots> = rev (filter (\<lambda>c. \<not> is_space c) (rev (dropWhile is_space s)))"
    by (simp add: filter_dropWhile_neg)
  also have "\<dots> = filter (\<lambda>c. \<not> is_space c) s"
    by (simp add: rev_filter [symmetric] filter_dropWhile_neg)
  finally show ?thesis .
qed

lemma strip_ends:
  "strip s \<noteq> [] \<Longrightarrow> \<not> is_space (hd (strip s)) \<and> \<not> is_space (last (strip s))"
proof -
  assume ne: "strip s \<noteq> []"
  let ?t = "dropWhile is_space s"
  let ?u = "dropWhile is_space (rev ?t)"
  have s: "strip s = rev ?u" by (simp add: strip_def)
  with ne have u: "?u \<noteq> []" by simp
  then have l: "\<not> is_space (hd ?u)" by (rule hd_dropWhile)
  have "last (strip s) = hd ?u" using u by (simp add: s last_rev)
  with l have 1: "\<not> is_space (last (strip s))" by simp
  have p: "prefix (strip s) ?t" unfolding s
    by (metis suffix_dropWhile suffix_to_prefix rev_rev_ident)
  with ne have "hd (strip s) = hd ?t" by (auto simp: prefix_def)
  moreover from p ne have "?t \<noteq> []" by (metis prefix_Nil)
  then have "\<not> is_space (hd ?t)" by (rule hd_dropWhile)
  ultimately show ?thesis using 1 by simp
qed

lemma is_space_nbsp: "is_space (char_of (160 :: nat))"
  by (simp add: is_space_def)

lemma nbsp_filter:
  "filter (\<lambda>c. \<not> is_space c) (map (\<lambda>c. if c = char_of (160 :: nat) then CHR '' '' else c) t)
     = filter (\<lambda>c. \<not> is_space c) t"
  by (induction t) (auto simp: is_space_space is_space_nbsp)

lemma normalize_whitespace_filter:
  "filter (\<lambda>c. \<not> is_space c) (normalize_whitespace t) = filter (\<lambda>c. \<not> is_space c) t"
  by (simp add: normalize_whitespace_def strip_filter sub_spaces_filter nbsp_filter)

lemma normalize_whitespace_spaces:
  "c \<in> set (normalize_whitespace t) \<Longrightarrow> is_space c \<longleftrightarrow> c = CHR '' ''"
  using strip_set [of "sub_spaces (map (\<lambda>c. if c = char_of (160 :: nat) then CHR '' '' else c) t)"]
    sub_spaces_spaces is_space_space
  unfolding normalize_whitespace_def by blast

lemma normalize_whitespace_ends:
  "\<not> prefix '' '' (normalize_whitespace t)" "\<not> suffix '' '' (normalize_whitespace t)"
proof -
  let ?n = "normalize_whitespace t"
  have e: "?n \<noteq> [] \<Longrightarrow> \<not> is_space (hd ?n) \<and> \<not> is_space (last ?n)"
    unfolding normalize_whitespace_def by (rule strip_ends)
  show "\<not> prefix '' '' ?n"
  proof
    assume "prefix '' '' ?n"
    then obtain r where "?n = CHR '' '' # r" by (auto simp: prefix_def)
    with e is_space_space show False by simp
  qed
  show "\<not> suffix '' '' ?n"
  proof
    assume "suffix '' '' ?n"
    then obtain r where "?n = r @ '' ''" by (auto simp: suffix_def)
    with e is_space_space show False by simp
  qed
qed

lemma normalize_whitespace_no_double: "\<not> sublist ''  '' (normalize_whitespace t)"
  unfolding normalize_whitespace_def
  using sub_spaces_no_double strip_sublist sublist_order.order_trans by blast

lemma normalize_author_name_words:
  "filter (\<lambda>c. c \<noteq> CHR '' '') (normalize_author_name a) = filter is_word (map lower_char a)"
proof -
  let ?s = "filter (\<lambda>c. is_word c \<or> is_space c) (lower a)"
  have "filter (\<lambda>c. c \<noteq> CHR '' '') (normalize_whitespace ?s)
      = filter (\<lambda>c. \<not> is_space c) (normalize_whitespace ?s)"
    by (rule filter_cong) (simp_all add: normalize_whitespace_spaces)
  also have "\<dots> = filter (\<lambda>c. \<not> is_space c) ?s" by (rule normalize_whitespace_filter)
  also have "\<dots> = filter is_word (lower a)"
    by (simp, rule filter_cong) (auto dest: word_not_space)
  finally show ?thesis by (simp add: normalize_author_name_def lower_def)
qed

lemma strip_rstrip: "strip s = rstrip (dropWhile is_space s)"
  by (simp add: strip_def rstrip_def)

lemma rstrip_id: "s \<noteq> [] \<Longrightarrow> \<not> is_space (last s) \<Longrightarrow> rstrip s = s"
  by (cases s rule: rev_cases) (simp_all add: rstrip_def)

lemma rstrip_all_space: "\<forall>x \<in> set s. is_space x \<Longrightarrow> rstrip s = []"
  by (simp add: rstrip_def)

lemma rstrip_append:
  "\<exists>x \<in> set ys. \<not> is_space x \<Longrightarrow> rstrip (xs @ ys) = xs @ rstrip ys"
proof -
  assume "\<exists>x \<in> set ys. \<not> is_space x"
  then obtain x where "x \<in> set (rev ys)" "\<not> is_space x" by auto
  then have "dropWhile is_space (rev ys @ rev xs) = dropWhile is_space (rev ys) @ rev xs"
    by (rule dropWhile_append1)
  then show ?thesis by (simp add: rstrip_def)
qed

lemma rstrip_append_space: "\<forall>x \<in> set ys. is_space x \<Longrightarrow> rstrip (xs @ ys) = rstrip xs"
proof -
  assume "\<forall>x \<in> set ys. is_space x"
  then have "dropWhile is_space (rev ys @ rev xs) = dropWhile is_space (rev xs)"
    by (intro dropWhile_append2) simp
  then show ?thesis by (simp add: rstrip_def)
qed

lemma sub_spaces_word:
  "\<forall>x \<in> set w. \<not> is_space x \<Longrightarrow> sub_spaces (w @ r) = w @ sub_spaces r"
  by (induction w) simp_all

lemma sub_spaces_nonspace_head:
  "t = [] \<or> \<not> is_space (hd t) \<Longrightarrow> dropWhile is_space (sub_spaces t) = sub_spaces t"
  by (cases t) auto

lemma dropWhile_sub_spaces:
  "dropWhile is_space (sub_spaces u) = sub_spaces (dropWhile is_space u)"
proof (cases u)
  case Nil
  then show ?thesis by simp
next
  case (Cons c cs)
  show ?thesis
  proof (cases "is_space c")
    case True
    let ?t = "dropWhile is_space cs"
    have "?t = [] \<or> \<not> is_space (hd ?t)" using hd_dropWhile by blast
    then have "dropWhile is_space (sub_spaces ?t) = sub_spaces ?t"
      by (rule sub_spaces_nonspace_head)
    with True Cons show ?thesis by (simp add: is_space_space)
  next
    case False
    with Cons show ?thesis by simp
  qed
qed

lemma split_ws_Nil_iff: "split_ws s = [] \<longleftrightarrow> dropWhile is_space s = []"
  by (subst split_ws.simps) (simp split: list.splits del: dropWhile_eq_Nil_conv)

lemma split_ws_dropWhile: "split_ws (dropWhile is_space s) = split_ws s"
  by (subst split_ws.simps, subst (2) split_ws.simps) simp

lemma rstrip_sub_spaces:
  "rstrip (sub_spaces (dropWhile is_space s)) = join '' '' (split_ws s)"
proof (induction s rule: split_ws.induct)
  case (1 s)
  show ?case
  proof (cases "dropWhile is_space s")
    case Nil
    then have "split_ws s = []" by (rule split_ws_Nil_iff [THEN iffD2])
    then show ?thesis unfolding Nil by (simp add: rstrip_def)
  next
    case (Cons c cs)
    let ?w = "c # takeWhile (\<lambda>x. \<not> is_space x) cs"
    let ?r = "dropWhile (\<lambda>x. \<not> is_space x) cs"
    let ?t = "dropWhile is_space ?r"
    have c: "\<not> is_space c" using Cons by (rule dropWhile_head)
    have w: "\<forall>x \<in> set ?w. \<not> is_space x" using c by (auto dest: set_takeWhileD)
    have lw: "\<not> is_space (last ?w)" using w by (metis last_in_set list.distinct(1))
    have split: "split_ws s = ?w # split_ws ?r"
      by (subst split_ws.simps) (simp add: Cons)
    have app: "c # cs = ?w @ ?r" by simp
    have ss: "sub_spaces (dropWhile is_space s) = ?w @ sub_spaces ?r"
      unfolding Cons app by (rule sub_spaces_word [OF w])
    have IH: "rstrip (sub_spaces ?t) = join '' '' (split_ws ?r)"
      using 1 [OF Cons] .
    show ?thesis
    proof (cases ?r)
      case Nil
      have "dropWhile is_space ?r = []" by (simp only: Nil dropWhile.simps)
      then have "split_ws ?r = []" by (rule split_ws_Nil_iff [THEN iffD2])
      then have j: "join '' '' (split_ws s) = ?w" by (simp only: split join.simps)
      have "sub_spaces ?r = []" by (simp only: Nil sub_spaces.simps)
      then have e: "sub_spaces (dropWhile is_space s) = ?w" by (simp only: ss append_Nil2)
      have "rstrip ?w = ?w" by (rule rstrip_id) (simp, rule lw)
      then show ?thesis by (simp only: e j)
    next
      case r: (Cons d ds)
      then have d: "is_space d" using dropWhile_head [of "\<lambda>x. \<not> is_space x" cs d ds] by simp
      then have sr: "sub_spaces ?r = CHR '' '' # sub_spaces ?t" using r by simp
      show ?thesis
      proof (cases "?t = []")
        case True
        then have e: "split_ws ?r = []" by (rule split_ws_Nil_iff [THEN iffD2])
        have j: "join '' '' (split_ws s) = ?w" by (simp only: split e join.simps)
        have "sub_spaces ?t = []" by (simp only: True sub_spaces.simps)
        then have e2: "sub_spaces (dropWhile is_space s) = ?w @ '' ''" by (simp only: ss sr)
        have "rstrip (?w @ '' '') = rstrip ?w"
          by (rule rstrip_append_space) (simp add: is_space_space)
        also have "\<dots> = ?w" by (rule rstrip_id) (simp, rule lw)
        finally show ?thesis by (simp only: e2 j)
      next
        case False
        then obtain y ys where t: "?t = y # ys" by (cases ?t) blast+
        then have y: "\<not> is_space y" by (rule dropWhile_head)
        have st: "sub_spaces ?t = y # sub_spaces ys" unfolding t using y by simp
        have ex: "\<exists>x \<in> set (sub_spaces ?t). \<not> is_space x" unfolding st using y by simp
        have ne: "split_ws ?r \<noteq> []" using False split_ws_Nil_iff by blast
        then obtain q qs where q: "split_ws ?r = q # qs" by (cases "split_ws ?r") blast+
        have "rstrip (sub_spaces (dropWhile is_space s))
            = rstrip ((?w @ '' '') @ sub_spaces ?t)"
          by (simp only: ss sr append_assoc append_Cons append_Nil)
        also have "\<dots> = (?w @ '' '') @ rstrip (sub_spaces ?t)"
          by (rule rstrip_append [OF ex])
        also have "\<dots> = ?w @ '' '' @ join '' '' (split_ws ?r)"
          by (simp only: IH append_assoc)
        also have "\<dots> = join '' '' (split_ws s)" by (simp only: split q join.simps)
        finally show ?thesis .
      qed
    qed
  qed
qed

lemma strip_sub_spaces: "strip (sub_spaces u) = join '' '' (split_ws u)"
  by (simp add: strip_rstrip dropWhile_sub_spaces rstrip_sub_spaces)

lemma split_ws_map:
  assumes sp: "\<And>c. is_space (f c) = is_space c" and id: "\<And>c. \<not> is_space c \<Longrightarrow> f c = c"
  shows "split_ws (map f s) = split_ws s"
proof (induction s rule: split_ws.induct)
  case (1 s)
  have dw: "dropWhile is_space (map f s) = map f (dropWhile is_space s)"
    by (simp add: dropWhile_map comp_def sp)
  show ?case
  proof (cases "dropWhile is_space s")
    case Nil
    then have "dropWhile is_space (map f s) = []" by (simp only: dw list.map)
    then have "split_ws (map f s) = []" by (rule split_ws_Nil_iff [THEN iffD2])
    moreover have "split_ws s = []" using Nil by (rule split_ws_Nil_iff [THEN iffD2])
    ultimately show ?thesis by simp
  next
    case (Cons c cs)
    have c: "\<not> is_space c" using Cons by (rule dropWhile_head)
    have tw: "takeWhile (\<lambda>x. \<not> is_space x) (map f cs) = takeWhile (\<lambda>x. \<not> is_space x) cs"
    proof -
      have "takeWhile (\<lambda>x. \<not> is_space x) (map f cs)
          = map f (takeWhile (\<lambda>x. \<not> is_space x) cs)"
        by (simp add: takeWhile_map comp_def sp)
      also have "\<dots> = takeWhile (\<lambda>x. \<not> is_space x) cs"
        by (rule map_idI) (auto dest: set_takeWhileD id)
      finally show ?thesis .
    qed
    have dr: "dropWhile (\<lambda>x. \<not> is_space x) (map f cs)
        = map f (dropWhile (\<lambda>x. \<not> is_space x) cs)"
      by (simp add: dropWhile_map comp_def sp)
    have l: "split_ws (map f s)
        = (f c # takeWhile (\<lambda>x. \<not> is_space x) (map f cs))
          # split_ws (dropWhile (\<lambda>x. \<not> is_space x) (map f cs))"
      by (subst split_ws.simps) (simp only: dw Cons list.map list.case)
    have r: "split_ws s = (c # takeWhile (\<lambda>x. \<not> is_space x) cs)
          # split_ws (dropWhile (\<lambda>x. \<not> is_space x) cs)"
      by (subst split_ws.simps) (simp only: Cons list.case)
    show ?thesis
      by (simp only: l r tw dr id [OF c] 1 [OF Cons])
  qed
qed

lemma normalize_whitespace_split: "normalize_whitespace t = join '' '' (split_ws t)"
proof -
  have "split_ws (map (\<lambda>c. if c = char_of (160 :: nat) then CHR '' '' else c) t) = split_ws t"
    by (rule split_ws_map) (auto simp: is_space_space is_space_nbsp)
  then show ?thesis by (simp add: normalize_whitespace_def strip_sub_spaces)
qed

lemma normalize_author_name_split:
  "normalize_author_name a =
     join '' '' (split_ws (filter (\<lambda>c. is_word c \<or> is_space c) (map lower_char a)))"
  by (simp add: normalize_author_name_def lower_def normalize_whitespace_split)

lemma normalize_title_split:
  "normalize_title t =
     join '' '' (split_ws (map (\<lambda>c. if is_word c \<or> is_space c then c else CHR '' '')
                           (map lower_char t)))"
  by (simp only: normalize_title_def lower_def normalize_whitespace_split)

lemma normalize_whitespace_not_missing: "normalize_whitespace s \<noteq> missing"
  using normalize_whitespace_ends(1) [of s] by (auto simp: missing_def)

section \<open>The self-citation filter\<close>

lemma normalize_author_name_Nil: "normalize_author_name [] = []"
  by (simp add: normalize_author_name_def normalize_whitespace_def strip_def lower_def)

lemma normalized_names_meets:
  assumes "[] \<notin> D"
  shows "(normalized_names names \<inter> D \<noteq> {}) = (\<exists>a \<in> set names. normalize_author_name a \<in> D)"
proof -
  have "(normalized_names names \<inter> D \<noteq> {}) =
        (\<exists>a \<in> set names. a \<noteq> [] \<and> normalize_author_name a \<in> D)"
    by (auto simp: normalized_names_def)
  also have "\<dots> = (\<exists>a \<in> set names. normalize_author_name a \<in> D)"
    using assms normalize_author_name_Nil by metis
  finally show ?thesis .
qed

lemma Nil_notin_ORIGINAL_AUTHORS: "[] \<notin> ORIGINAL_AUTHORS"
  by (simp add: ORIGINAL_AUTHORS_def)

lemma Nil_notin_ORIGINAL_AUTHORS_openalex: "[] \<notin> ORIGINAL_AUTHORS_openalex"
  by (simp add: ORIGINAL_AUTHORS_openalex_def)

text \<open>
  C3: the filter of \<open>collect_citations.py\<close> keeps, in order, exactly the records none of
  whose author names (the final authors, or the scraped ones when there are no final
  authors) has a normalized form in the denylist, and drops the others; the test of
  \<open>openalex_citations.py\<close> excludes a list of authors exactly when one of them has a
  normalized form in its denylist. Membership is equality of strings. The normalized form
  of a name is made of the lowercased name, without its characters that are neither word
  characters nor whitespace, by joining its words with single spaces: so it has no space at
  either end and no two spaces in a row, and without its spaces it is the word characters
  of the lowercased name in their order.
\<close>

theorem self_citation_filter:
  "filter_self_citations rs =
     filter (\<lambda>r. \<not> (\<exists>a \<in> set (author_names r). normalize_author_name a \<in> ORIGINAL_AUTHORS)) rs
   \<and> should_exclude_self_citation authors =
       (\<exists>a \<in> set authors. normalize_author_name a \<in> ORIGINAL_AUTHORS_openalex)
   \<and> normalize_author_name name =
       join '' '' (split_ws (filter (\<lambda>c. is_word c \<or> is_space c) (map lower_char name)))
   \<and> filter (\<lambda>c. c \<noteq> CHR '' '') (normalize_author_name name)
       = filter is_word (map lower_char name)
   \<and> \<not> prefix '' '' (normalize_author_name name)
   \<and> \<not> suffix '' '' (normalize_author_name name)
   \<and> \<not> sublist ''  '' (normalize_author_name name)"
proof (intro conjI)
  show "filter_self_citations rs =
     filter (\<lambda>r. \<not> (\<exists>a \<in> set (author_names r). normalize_author_name a \<in> ORIGINAL_AUTHORS)) rs"
    by (induction rs)
       (simp_all add: normalized_names_meets [OF Nil_notin_ORIGINAL_AUTHORS])
  show "should_exclude_self_citation authors =
       (\<exists>a \<in> set authors. normalize_author_name a \<in> ORIGINAL_AUTHORS_openalex)"
    by (simp add: should_exclude_self_citation_def
          normalized_names_meets [OF Nil_notin_ORIGINAL_AUTHORS_openalex])
  show "normalize_author_name name =
       join '' '' (split_ws (filter (\<lambda>c. is_word c \<or> is_space c) (map lower_char name)))"
    by (rule normalize_author_name_split)
  show "filter (\<lambda>c. c \<noteq> CHR '' '') (normalize_author_name name)
       = filter is_word (map lower_char name)"
    by (rule normalize_author_name_words)
  show "\<not> prefix '' '' (normalize_author_name name)"
    unfolding normalize_author_name_def by (rule normalize_whitespace_ends)
  show "\<not> suffix '' '' (normalize_author_name name)"
    unfolding normalize_author_name_def by (rule normalize_whitespace_ends)
  show "\<not> sublist ''  '' (normalize_author_name name)"
    unfolding normalize_author_name_def by (rule normalize_whitespace_no_double)
qed

theorem self_citation_filter_witness:
  "normalize_author_name ''P.  C. Ma'' = ''p c ma''
   \<and> normalize_author_name spaced_name = ''peter c ma''
   \<and> filter_self_citations
       [from_scholar test_paper,
        (from_scholar test_paper)\<lparr>final_authors := [''J Smith'', ''P.  C. Ma'']\<rparr>,
        from_scholar (test_paper\<lparr>authors_list := [spaced_name]\<rparr>)]
     = [from_scholar test_paper]
   \<and> should_exclude_self_citation [''Peter Ma'']
   \<and> \<not> should_exclude_self_citation [''J Smith'']
   \<and> \<not> sublist ''  '' (normalize_author_name ''P.  C. Ma'')"
proof -
  note kept = self_citation_filter [of "[from_scholar test_paper,
      (from_scholar test_paper)\<lparr>final_authors := [''J Smith'', ''P.  C. Ma'']\<rparr>,
      from_scholar (test_paper\<lparr>authors_list := [spaced_name]\<rparr>)]" "[''Peter Ma'']"
      "''P.  C. Ma''"]
  note other = self_citation_filter [of "[]" "[''J Smith'']" "[]"]
  note filtered = kept [THEN conjunct1]
  note excluded = kept [THEN conjunct2, THEN conjunct1]
  note retained = other [THEN conjunct2, THEN conjunct1]
  note single = kept [THEN conjunct2, THEN conjunct2, THEN conjunct2, THEN conjunct2,
      THEN conjunct2, THEN conjunct2]
  have 1: "filter_self_citations
       [from_scholar test_paper,
        (from_scholar test_paper)\<lparr>final_authors := [''J Smith'', ''P.  C. Ma'']\<rparr>,
        from_scholar (test_paper\<lparr>authors_list := [spaced_name]\<rparr>)]
     = [from_scholar test_paper]"
    unfolding filtered
    by (simp add: author_names_def from_scholar_def test_paper_def
          normalize_author_name_samples ORIGINAL_AUTHORS_def)
  have 2: "should_exclude_self_citation [''Peter Ma'']"
    unfolding excluded
    by (simp add: normalize_author_name_samples ORIGINAL_AUTHORS_openalex_def)
  have 3: "\<not> should_exclude_self_citation [''J Smith'']"
    unfolding retained
    by (simp add: normalize_author_name_samples ORIGINAL_AUTHORS_openalex_def)
  from 1 2 3 single normalize_author_name_samples(5,6) show ?thesis by (intro conjI)
qed

section \<open>The cache\<close>

lemma query_crossref_hit:
  "cache st (normalize_title t) = Some e \<Longrightarrow> query_crossref session sc t st = (e, st)"
  by (simp add: query_crossref_def)

lemma query_crossref_cached:
  "query_crossref session sc t st = (info, st') \<Longrightarrow> cache st' (normalize_title t) = Some info"
  by (auto simp: query_crossref_def store_def Let_def
      split: option.splits response.splits prod.splits if_splits)

text \<open>
  C5: two titles with the same normalized form address the same cache entry. When the
  entry is there, the lookup for either title returns it and leaves the state as it was;
  and whatever a lookup for the first title returns, hit or miss, a later lookup for the
  second returns the same entry without a query.
\<close>

theorem cache_keyed_by_normalized_title:
  assumes "normalize_title t1 = normalize_title t2"
  shows "(\<forall>e. cache st (normalize_title t1) = Some e \<longrightarrow>
            query_crossref session sc t1 st = (e, st) \<and> query_crossref session sc t2 st = (e, st))
       \<and> (\<forall>info st'. query_crossref session sc t1 st = (info, st') \<longrightarrow>
            query_crossref session' sc' t2 st' = (info, st'))"
  using assms query_crossref_hit query_crossref_cached by metis

theorem cache_keyed_by_normalized_title_witness:
  "normalize_title ''Test Paper'' = normalize_title ''test, PAPER!''
   \<and> cache \<lparr>cache = [''test paper'' \<mapsto> error_info ''timeout''], queries = []\<rparr>
       (normalize_title ''Test Paper'') = Some (error_info ''timeout'')
   \<and> query_crossref (\<lambda>_. Items []) sample_score ''Test Paper''
       \<lparr>cache = [''test paper'' \<mapsto> error_info ''timeout''], queries = []\<rparr>
     = (error_info ''timeout'',
        \<lparr>cache = [''test paper'' \<mapsto> error_info ''timeout''], queries = []\<rparr>)
   \<and> query_crossref (\<lambda>_. Items []) sample_score ''test, PAPER!''
       \<lparr>cache = [''test paper'' \<mapsto> error_info ''timeout''], queries = []\<rparr>
     = (error_info ''timeout'',
        \<lparr>cache = [''test paper'' \<mapsto> error_info ''timeout''], queries = []\<rparr>)"
  using cache_keyed_by_normalized_title [of "''Test Paper''" "''test, PAPER!''"
      "\<lparr>cache = [''test paper'' \<mapsto> error_info ''timeout''], queries = []\<rparr>"
      "\<lambda>_. Items []" sample_score]
  by (simp add: normalize_title_samples)

section \<open>The enrichment loop\<close>

lemma query_crossref_mono:
  "query_crossref session sc t st = (info, st') \<Longrightarrow> cache st k = Some e \<Longrightarrow> cache st' k = Some e"
  by (auto simp: query_crossref_def store_def Let_def
      split: option.splits response.splits prod.splits if_splits)

lemma enrich_loop_mono:
  "enrich_loop session sc rs st = (out, st') \<Longrightarrow> cache st k = Some e \<Longrightarrow> cache st' k = Some e"
proof (induction rs arbitrary: st out st')
  case Nil
  then show ?case by simp
next
  case (Cons r rs)
  obtain info st1 where q: "query_crossref session sc (title r) st = (info, st1)"
    by (cases "query_crossref session sc (title r) st")
  obtain out2 st2 where l: "enrich_loop session sc rs st1 = (out2, st2)"
    by (cases "enrich_loop session sc rs st1")
  from Cons.prems q l have "st' = st2" by simp
  with Cons.IH [OF l] query_crossref_mono [OF q Cons.prems(2)] show ?case by simp
qed

lemma enrich_loop_outputs:
  "enrich_loop session sc rs st = (out, st') \<Longrightarrow>
   length out = length rs \<and>
   (\<forall>i < length rs. \<exists>info. cache st' (normalize_title (title (rs ! i))) = Some info
        \<and> out ! i = enrich_one (rs ! i) info)"
proof (induction rs arbitrary: st out st')
  case Nil
  then show ?case by simp
next
  case (Cons r rs)
  obtain info st1 where q: "query_crossref session sc (title r) st = (info, st1)"
    by (cases "query_crossref session sc (title r) st")
  obtain out2 st2 where l: "enrich_loop session sc rs st1 = (out2, st2)"
    by (cases "enrich_loop session sc rs st1")
  from Cons.prems q l have o: "out = enrich_one r info # out2" and s: "st' = st2" by simp_all
  have c: "cache st2 (normalize_title (title r)) = Some info"
    using enrich_loop_mono [OF l query_crossref_cached [OF q]] .
  from Cons.IH [OF l] have len: "length out2 = length rs"
    and nth: "\<And>i. i < length rs \<Longrightarrow> \<exists>info. cache st2 (normalize_title (title (rs ! i))) = Some info
        \<and> out2 ! i = enrich_one (rs ! i) info" by simp_all
  show ?case
  proof (intro conjI allI impI)
    show "length out = length (r # rs)" using o len by simp
  next
    fix i assume "i < length (r # rs)"
    then show "\<exists>info. cache st' (normalize_title (title ((r # rs) ! i))) = Some info
        \<and> out ! i = enrich_one ((r # rs) ! i) info"
      using o s c nth by (cases i) auto
  qed
qed

lemma enrich_one_authors:
  "authors_crossref (enrich_one r info) = get_authors info"
  "final_authors (enrich_one r info) =
     (if get_authors info \<noteq> [] then get_authors info else authors_list r)"
  "author_source (enrich_one r info) =
     (if get_authors info \<noteq> [] then ''crossref''
      else if authors_list r \<noteq> [] then
        (if authors_truncated r then ''scholar_truncated'' else ''scholar'')
      else ''unknown'')"
  by (simp_all add: enrich_one_def Let_def from_scholar_def)

lemma pad_affiliations_eq:
  "pad_affiliations affs n = affs @ replicate (n - length affs) []"
proof (induction affs n rule: pad_affiliations.induct)
  case (1 affs n)
  show ?case
  proof (cases "length affs < n")
    case True
    then have "n - length affs = Suc (n - Suc (length affs))" by simp
    with True 1 show ?thesis
      by (simp add: replicate_app_Cons_same del: pad_affiliations.simps replicate_Suc
            add: pad_affiliations.simps [of affs n] replicate_Suc [symmetric])
  next
    case False
    then show ?thesis by simp
  qed
qed

lemma align_affiliations_eq:
  "align_affiliations authors affs =
     (if affs = [] then [] else take (length authors) affs @ replicate (length authors - length affs) [])"
  by (auto simp: align_affiliations_def pad_affiliations_eq simp del: pad_affiliations.simps)

lemma enrich_one_affiliations:
  "authors_crossref_affiliations (enrich_one r info) =
     (case info_authors_affiliations info of
        None \<Rightarrow> replicate (length (get_authors info)) []
      | Some affs \<Rightarrow> take (length (get_authors info)) affs
                     @ replicate (length (get_authors info) - length affs) [])"
  "final_author_affiliations (enrich_one r info) =
     (if get_authors info \<noteq> [] then authors_crossref_affiliations (enrich_one r info)
      else replicate (length (authors_list r)) [])"
  by (auto simp: enrich_one_def Let_def from_scholar_def align_affiliations_eq map_replicate_const
      split: option.splits list.splits)

lemma sample_authors:
  "author_name john_smith = ''John Smith''"
  "author_affiliations john_smith = [''MIT'']"
  by code_simp+

lemma select_best_sample:
  "select_best sample_score ''test paper'' [other_item, test_item] (None, 0) = (Some test_item, 1)"
  by (simp add: item_score_def other_item_def test_item_def sample_score_def normalize_title_samples)

lemma threshold_bounds: "0 < threshold" "threshold \<le> 1" "1 / 2 < threshold"
  by (simp_all add: threshold_def)

lemma run_sample:
  "query_crossref sample_session sample_score ''Test Paper'' \<lparr>cache = Map.empty, queries = []\<rparr>
   = (ok_info test_item 1, \<lparr>cache = [''test paper'' \<mapsto> ok_info test_item 1], queries = [''Test Paper'']\<rparr>)"
  using threshold_bounds
  by (simp add: query_crossref_def Let_def normalize_title_samples sample_session_def select_best_sample store_def
      del: select_best.simps)

lemma get_authors_sample: "get_authors (ok_info test_item 1) = [''John Smith'']"
  by (simp add: get_authors_def ok_info_def test_item_def sample_authors)

text \<open>
  C1: for every record of a run of the enricher, with the entry the cache holds for its
  normalized title as the answer of the enrichment source: the final authors are the
  source's authors when there are some, with provenance \<open>crossref\<close>; otherwise the scraped
  authors when there are some, with provenance \<open>scholar\<close>, or \<open>scholar_truncated\<close> when the
  record's truncation flag is set; otherwise none, with provenance \<open>unknown\<close>.
\<close>

theorem final_authors_merge_policy:
  assumes "enrich_records session sc loaded records = (out, st')" and "i < length records"
  shows "\<exists>info. cache st' (normalize_title (title (records ! i))) = Some info
           \<and> authors_crossref (out ! i) = get_authors info
           \<and> (if get_authors info \<noteq> []
               then final_authors (out ! i) = get_authors info
                    \<and> author_source (out ! i) = ''crossref''
               else if authors_list (records ! i) \<noteq> []
               then final_authors (out ! i) = authors_list (records ! i)
                    \<and> author_source (out ! i) =
                        (if authors_truncated (records ! i) then ''scholar_truncated''
                         else ''scholar'')
               else final_authors (out ! i) = [] \<and> author_source (out ! i) = ''unknown'')"
proof -
  from enrich_loop_outputs [OF assms(1) [unfolded enrich_records_def]] assms(2)
  obtain info where c: "cache st' (normalize_title (title (records ! i))) = Some info"
    and o: "out ! i = enrich_one (records ! i) info" by blast
  show ?thesis
    by (rule exI [of _ info]) (simp add: c o enrich_one_authors)
qed

theorem final_authors_merge_policy_witness:
  "0 < length [test_paper]
   \<and> final_authors (fst (enrich_records sample_session sample_score Map.empty [test_paper]) ! 0)
       = [''John Smith'']
   \<and> author_source (fst (enrich_records sample_session sample_score Map.empty [test_paper]) ! 0)
       = ''crossref''"
proof -
  have run: "enrich_records sample_session sample_score Map.empty [test_paper]
      = ([enrich_one test_paper (ok_info test_item 1)],
         \<lparr>cache = [''test paper'' \<mapsto> ok_info test_item 1], queries = [''Test Paper'']\<rparr>)"
    by (simp add: enrich_records_def run_sample test_paper_def)
  have i: "0 < length [test_paper]" by simp
  have t: "title test_paper = ''Test Paper''" by (simp add: test_paper_def)
  from final_authors_merge_policy [OF run i] show ?thesis
    by (simp add: run t normalize_title_samples get_authors_sample)
qed

text \<open>
  C9: in every enriched record the affiliation lists are as long as the author lists, for
  the Crossref fields and for the final fields; and when the cache entry has an affiliation
  list, the record's is that list cut or filled with empty lists to the number of authors.
\<close>

theorem affiliations_aligned:
  assumes "enrich_records session sc loaded records = (out, st')" and "i < length records"
  shows "length (authors_crossref_affiliations (out ! i)) = length (authors_crossref (out ! i))
       \<and> length (final_author_affiliations (out ! i)) = length (final_authors (out ! i))
       \<and> (\<exists>info. cache st' (normalize_title (title (records ! i))) = Some info
            \<and> authors_crossref (out ! i) = get_authors info
            \<and> (\<forall>affs. info_authors_affiliations info = Some affs \<longrightarrow>
                 authors_crossref_affiliations (out ! i) =
                   take (length (get_authors info)) affs
                   @ replicate (length (get_authors info) - length affs) []))"
proof -
  from enrich_loop_outputs [OF assms(1) [unfolded enrich_records_def]] assms(2)
  obtain info where c: "cache st' (normalize_title (title (records ! i))) = Some info"
    and o: "out ! i = enrich_one (records ! i) info" by blast
  have 1: "length (authors_crossref_affiliations (out ! i)) = length (authors_crossref (out ! i))"
    by (auto simp: o enrich_one_affiliations enrich_one_authors split: option.splits)
  have 2: "length (final_author_affiliations (out ! i)) = length (final_authors (out ! i))"
    using 1 by (simp add: o enrich_one_affiliations(2) enrich_one_authors)
  have 3: "\<forall>affs. info_authors_affiliations info = Some affs \<longrightarrow>
                 authors_crossref_affiliations (out ! i) =
                   take (length (get_authors info)) affs
                   @ replicate (length (get_authors info) - length affs) []"
    by (simp add: o enrich_one_affiliations(1))
  from 1 2 3 c o show ?thesis by (auto simp: enrich_one_authors)
qed

theorem affiliations_aligned_witness:
  "1 < length [test_paper, test_paper\<lparr>title := ''Another work''\<rparr>]
   \<and> authors_crossref_affiliations
        (fst (enrich_records sample_session sample_score
           [''test paper'' \<mapsto> padded_entry, ''another work'' \<mapsto> long_entry]
           [test_paper, test_paper\<lparr>title := ''Another work''\<rparr>]) ! 0) = [[''X''], []]
   \<and> authors_crossref_affiliations
        (fst (enrich_records sample_session sample_score
           [''test paper'' \<mapsto> padded_entry, ''another work'' \<mapsto> long_entry]
           [test_paper, test_paper\<lparr>title := ''Another work''\<rparr>]) ! 1) = [[''X'']]"
proof -
  let ?c = "[''test paper'' \<mapsto> padded_entry, ''another work'' \<mapsto> long_entry]"
  let ?rs = "[test_paper, test_paper\<lparr>title := ''Another work''\<rparr>]"
  have run: "enrich_records sample_session sample_score ?c ?rs
      = ([enrich_one test_paper padded_entry,
          enrich_one (test_paper\<lparr>title := ''Another work''\<rparr>) long_entry],
         \<lparr>cache = ?c, queries = []\<rparr>)"
    by (simp add: enrich_records_def query_crossref_def test_paper_def normalize_title_samples)
  have 0: "0 < length ?rs" and 1: "1 < length ?rs" by simp_all
  have t: "title test_paper = ''Test Paper''" by (simp add: test_paper_def)
  have a: "authors_crossref_affiliations (enrich_one test_paper padded_entry) = [[''X''], []]"
    using affiliations_aligned [OF run 0]
    by (simp add: t normalize_title_samples get_authors_def padded_entry_def empty_info_def)
  have b: "authors_crossref_affiliations
             (enrich_one (test_paper\<lparr>title := ''Another work''\<rparr>) long_entry) = [[''X'']]"
    using affiliations_aligned [OF run 1]
    by (simp add: normalize_title_samples get_authors_def long_entry_def empty_info_def)
  show ?thesis using a b by (simp add: run)
qed

lemma enrich_one_error:
  "crossref_status (enrich_one r (error_info exc)) = ''error''"
  "crossref_score (enrich_one r (error_info exc)) = None"
  "doi (enrich_one r (error_info exc)) = None"
  "journal (enrich_one r (error_info exc)) = None"
  "crossref_year (enrich_one r (error_info exc)) = year r"
  "authors_crossref (enrich_one r (error_info exc)) = []"
  "authors_crossref_affiliations (enrich_one r (error_info exc)) = []"
  "final_authors (enrich_one r (error_info exc)) = authors_list r"
  "title (enrich_one r (error_info exc)) = title r"
  by (simp_all add: enrich_one_def Let_def from_scholar_def error_info_def empty_info_def
        get_authors_def align_affiliations_def)

lemma query_crossref_failure:
  "cache st (normalize_title t) = None \<Longrightarrow> session t = Failure exc \<Longrightarrow>
   query_crossref session sc t st = (error_info exc, store t (normalize_title t) (error_info exc) st)"
  by (simp add: query_crossref_def)

lemma enrich_one_error_record:
  "enrich_one r (error_info exc) =
          \<lparr>title = title r, url = url r, authors_raw = authors_raw r, snippet = snippet r,
            raw_meta = raw_meta r, year = year r, cluster_id = cluster_id r,
            page_index = page_index r, authors_list = authors_list r,
            authors_truncated = authors_truncated r,
            first_author = (case authors_list r of [] \<Rightarrow> None | a # _ \<Rightarrow> Some a),
            first_author_affiliations = [],
            doi = None, crossref_year = year r, journal = None, crossref_score = None,
            crossref_status = ''error'',
            authors_crossref = [], authors_crossref_affiliations = [],
            final_authors = authors_list r,
            final_author_affiliations = map (\<lambda>_. []) (authors_list r),
            author_source =
              (if authors_list r = [] then ''unknown''
               else if authors_truncated r then ''scholar_truncated'' else ''scholar'')\<rparr>"
  by (cases "authors_list r")
     (simp_all add: enrich_one_def Let_def from_scholar_def error_info_def empty_info_def
        get_authors_def align_affiliations_def)

text \<open>
  C7: when the query for a record fails (its normalized title is not in the cache and the
  request raises), the cache gets an entry of status \<open>error\<close> under the normalized title,
  which is still there at the end of the run. The record's output is the record itself, with
  all its scraped fields, and nothing from the enrichment source: status \<open>error\<close>, no
  score, DOI or journal, the scraped year, no Crossref authors, the scraped authors as
  final authors with empty affiliations, and the provenance of scraped authors. The loop
  goes on with the records that follow: the output of the run is this record's output
  before the outputs of the rest of the records, processed from the state with the new
  entry.
\<close>

theorem network_error_recorded:
  assumes "cache st (normalize_title (title r)) = None"
    and "session (title r) = Failure exc"
    and "enrich_loop session sc (r # rs) st = (out, st')"
  shows "cache st' (normalize_title (title r)) = Some (error_info exc)
       \<and> info_status (error_info exc) = Some ''error''
       \<and> out = enrich_one r (error_info exc)
               # fst (enrich_loop session sc rs
                       (store (title r) (normalize_title (title r)) (error_info exc) st))
       \<and> st' = snd (enrich_loop session sc rs
                       (store (title r) (normalize_title (title r)) (error_info exc) st))
       \<and> length out = Suc (length rs)
       \<and> crossref_status (hd out) = ''error''
       \<and> crossref_score (hd out) = None
       \<and> doi (hd out) = None
       \<and> journal (hd out) = None
       \<and> crossref_year (hd out) = year r
       \<and> authors_crossref (hd out) = []
       \<and> authors_crossref_affiliations (hd out) = []
       \<and> final_authors (hd out) = authors_list r
       \<and> hd out =
          \<lparr>title = title r, url = url r, authors_raw = authors_raw r, snippet = snippet r,
            raw_meta = raw_meta r, year = year r, cluster_id = cluster_id r,
            page_index = page_index r, authors_list = authors_list r,
            authors_truncated = authors_truncated r,
            first_author = (case authors_list r of [] \<Rightarrow> None | a # _ \<Rightarrow> Some a),
            first_author_affiliations = [],
            doi = None, crossref_year = year r, journal = None, crossref_score = None,
            crossref_status = ''error'',
            authors_crossref = [], authors_crossref_affiliations = [],
            final_authors = authors_list r,
            final_author_affiliations = map (\<lambda>_. []) (authors_list r),
            author_source =
              (if authors_list r = [] then ''unknown''
               else if authors_truncated r then ''scholar_truncated'' else ''scholar'')\<rparr>"
proof -
  let ?st1 = "store (title r) (normalize_title (title r)) (error_info exc) st"
  have q: "query_crossref session sc (title r) st = (error_info exc, ?st1)"
    using assms(1,2) by (rule query_crossref_failure)
  obtain out2 st2 where l: "enrich_loop session sc rs ?st1 = (out2, st2)"
    by (cases "enrich_loop session sc rs ?st1")
  from assms(3) q l have o: "out = enrich_one r (error_info exc) # out2" and s: "st' = st2"
    by simp_all
  have c: "cache st' (normalize_title (title r)) = Some (error_info exc)"
    using enrich_loop_mono [OF l query_crossref_cached [OF q]] s by simp
  have len: "length out2 = length rs" using enrich_loop_outputs [OF l] by simp
  have 1: "info_status (error_info exc) = Some ''error''" by (simp add: error_info_def)
  have 2: "out = enrich_one r (error_info exc) # fst (enrich_loop session sc rs ?st1)"
    using o l by simp
  have 3: "st' = snd (enrich_loop session sc rs ?st1)" using s l by simp
  have 4: "length out = Suc (length rs)" using o len by simp
  have 5: "hd out = enrich_one r (error_info exc)" using o by simp
  show ?thesis
    unfolding 5 enrich_one_error
    by (intro conjI) (rule c 1 2 3 4 refl enrich_one_error_record)+
qed

lemma test_paper_fields:
  "title test_paper = ''Test Paper''"
  "authors_list test_paper = [''J Smith'', ''K Lee'']"
  "authors_truncated test_paper = False"
  "year test_paper = Some 2020"
  by (simp_all add: test_paper_def)

lemma other_paper_fields:
  "title other_paper = ''Another work''"
  "authors_list other_paper = [''J Smith'', ''K Lee'']"
  "authors_truncated other_paper = False"
  "year other_paper = Some 2020"
  by (simp_all add: other_paper_def test_paper_def)

lemma error_sample:
  "query_crossref failing_session sample_score ''Test Paper'' \<lparr>cache = Map.empty, queries = []\<rparr>
   = (error_info ''timeout'',
      \<lparr>cache = [''test paper'' \<mapsto> error_info ''timeout''], queries = [''Test Paper'']\<rparr>)"
  by (simp add: query_crossref_def Let_def normalize_title_samples failing_session_def store_def)

lemma error_then_match_sample:
  "enrich_loop sample_session sample_score [other_paper, test_paper]
     \<lparr>cache = Map.empty, queries = []\<rparr>
   = ([enrich_one other_paper (error_info ''timeout''),
       enrich_one test_paper (ok_info test_item 1)],
      \<lparr>cache = [''another work'' \<mapsto> error_info ''timeout'',
                ''test paper'' \<mapsto> ok_info test_item 1],
        queries = [''Another work'', ''Test Paper'']\<rparr>)"
  using threshold_bounds
  by (simp add: query_crossref_def Let_def normalize_title_samples sample_session_def
        select_best_sample store_def other_paper_fields test_paper_fields
      del: select_best.simps)

theorem network_error_recorded_witness:
  "cache \<lparr>cache = Map.empty, queries = []\<rparr> (normalize_title (title other_paper)) = None
   \<and> sample_session (title other_paper) = Failure ''timeout''
   \<and> enrich_loop sample_session sample_score [other_paper, test_paper]
        \<lparr>cache = Map.empty, queries = []\<rparr>
      = ([enrich_one other_paper (error_info ''timeout''),
          enrich_one test_paper (ok_info test_item 1)],
         \<lparr>cache = [''another work'' \<mapsto> error_info ''timeout'',
                   ''test paper'' \<mapsto> ok_info test_item 1],
           queries = [''Another work'', ''Test Paper'']\<rparr>)
   \<and> title (enrich_one other_paper (error_info ''timeout'')) = ''Another work''
   \<and> crossref_status (enrich_one other_paper (error_info ''timeout'')) = ''error''
   \<and> crossref_year (enrich_one other_paper (error_info ''timeout'')) = Some 2020
   \<and> final_authors (enrich_one other_paper (error_info ''timeout'')) = [''J Smith'', ''K Lee'']
   \<and> author_source (enrich_one other_paper (error_info ''timeout'')) = ''scholar''
   \<and> crossref_status (enrich_one test_paper (ok_info test_item 1)) = ''ok''
   \<and> final_authors (enrich_one test_paper (ok_info test_item 1)) = [''John Smith'']"
proof -
  let ?st = "\<lparr>cache = Map.empty, queries = []\<rparr>"
  have h1: "cache ?st (normalize_title (title other_paper)) = None" by simp
  have h2: "sample_session (title other_paper) = Failure ''timeout''"
    by (simp add: sample_session_def other_paper_fields)
  note T = network_error_recorded [OF h1 h2 error_then_match_sample]
  have e: "hd [enrich_one other_paper (error_info ''timeout''),
               enrich_one test_paper (ok_info test_item 1)]
           = enrich_one other_paper (error_info ''timeout'')" by simp
  note R = T [THEN conjunct2, THEN conjunct2, THEN conjunct2, THEN conjunct2, THEN conjunct2,
      THEN conjunct2, THEN conjunct2, THEN conjunct2, THEN conjunct2, THEN conjunct2,
      THEN conjunct2, THEN conjunct2, THEN conjunct2, unfolded e]
  have 1: "title (enrich_one other_paper (error_info ''timeout'')) = ''Another work''"
    and 2: "crossref_status (enrich_one other_paper (error_info ''timeout'')) = ''error''"
    and 3: "crossref_year (enrich_one other_paper (error_info ''timeout'')) = Some 2020"
    and 4: "final_authors (enrich_one other_paper (error_info ''timeout''))
              = [''J Smith'', ''K Lee'']"
    and 5: "author_source (enrich_one other_paper (error_info ''timeout'')) = ''scholar''"
    unfolding R by (simp_all add: other_paper_fields)
  have 6: "crossref_status (enrich_one test_paper (ok_info test_item 1)) = ''ok''"
    by (simp add: enrich_one_def Let_def ok_info_def)
  have 7: "final_authors (enrich_one test_paper (ok_info test_item 1)) = [''John Smith'']"
    by (simp add: enrich_one_authors get_authors_sample)
  show ?thesis
    by (intro conjI) (rule h1 h2 error_then_match_sample 1 2 3 4 5 6 7)+
qed

text \<open>
  C10: an entry that is in the cache is returned as it is, whatever its status, and the state
  with its list of queries is unchanged; and what a query returned, an \<open>error\<close> or a
  \<open>no_match\<close> entry too, is returned again without a query from any later state that still
  has that entry under the normalized title, whatever the network would answer then.
\<close>

theorem cached_entry_not_retried:
  "(cache st (normalize_title t) = Some e \<longrightarrow> query_crossref session sc t st = (e, st))
   \<and> (query_crossref session sc t st = (info, st1)
        \<and> cache st2 (normalize_title t) = cache st1 (normalize_title t)
      \<longrightarrow> query_crossref session' sc' t st2 = (info, st2))"
  using query_crossref_hit query_crossref_cached by metis

lemma no_match_sample:
  "query_crossref (\<lambda>_. Items [other_item]) sample_score ''Test Paper''
     \<lparr>cache = Map.empty, queries = []\<rparr>
   = (no_match_info (1 / 2),
      \<lparr>cache = [''test paper'' \<mapsto> no_match_info (1 / 2)], queries = [''Test Paper'']\<rparr>)"
  using threshold_bounds
  by (simp add: query_crossref_def Let_def normalize_title_samples item_score_def other_item_def
        sample_score_def store_def)

theorem cached_entry_not_retried_witness:
  "query_crossref failing_session sample_score ''Test Paper'' \<lparr>cache = Map.empty, queries = []\<rparr>
     = (error_info ''timeout'',
        \<lparr>cache = [''test paper'' \<mapsto> error_info ''timeout''], queries = [''Test Paper'']\<rparr>)
   \<and> query_crossref sample_session sample_score ''Test Paper''
        \<lparr>cache = [''test paper'' \<mapsto> error_info ''timeout''], queries = []\<rparr>
     = (error_info ''timeout'',
        \<lparr>cache = [''test paper'' \<mapsto> error_info ''timeout''], queries = []\<rparr>)
   \<and> query_crossref sample_session sample_score ''Test Paper''
        \<lparr>cache = [''test paper'' \<mapsto> no_match_info (1 / 2)], queries = []\<rparr>
     = (no_match_info (1 / 2),
        \<lparr>cache = [''test paper'' \<mapsto> no_match_info (1 / 2)], queries = []\<rparr>)"
proof -
  have a: "query_crossref sample_session sample_score ''Test Paper''
        \<lparr>cache = [''test paper'' \<mapsto> error_info ''timeout''], queries = []\<rparr>
     = (error_info ''timeout'',
        \<lparr>cache = [''test paper'' \<mapsto> error_info ''timeout''], queries = []\<rparr>)"
    using cached_entry_not_retried [where session = failing_session and sc = sample_score
        and t = "''Test Paper''" and st = "\<lparr>cache = Map.empty, queries = []\<rparr>"
        and info = "error_info ''timeout''"
        and ?st1.0 = "\<lparr>cache = [''test paper'' \<mapsto> error_info ''timeout''],
                       queries = [''Test Paper'']\<rparr>"
        and ?st2.0 = "\<lparr>cache = [''test paper'' \<mapsto> error_info ''timeout''], queries = []\<rparr>"
        and session' = sample_session and sc' = sample_score]
    by (simp add: error_sample normalize_title_samples)
  have b: "query_crossref sample_session sample_score ''Test Paper''
        \<lparr>cache = [''test paper'' \<mapsto> no_match_info (1 / 2)], queries = []\<rparr>
     = (no_match_info (1 / 2),
        \<lparr>cache = [''test paper'' \<mapsto> no_match_info (1 / 2)], queries = []\<rparr>)"
    using cached_entry_not_retried [where session = sample_session and sc = sample_score
        and t = "''Test Paper''" and e = "no_match_info (1 / 2)"
        and st = "\<lparr>cache = [''test paper'' \<mapsto> no_match_info (1 / 2)], queries = []\<rparr>"]
    by (simp add: normalize_title_samples)
  show ?thesis using a b error_sample by simp
qed

lemma enrich_loop_all_cached:
  "\<forall>r \<in> set rs. normalize_title (title r) \<in> dom (cache st) \<Longrightarrow>
   enrich_loop session sc rs st
     = (map (\<lambda>r. enrich_one r (the (cache st (normalize_title (title r))))) rs, st)"
proof (induction rs)
  case Nil
  then show ?case by simp
next
  case (Cons r rs)
  then obtain e where e: "cache st (normalize_title (title r)) = Some e" by auto
  from Cons show ?case by (simp add: query_crossref_hit [OF e] e)
qed

lemma enrich_loop_covers:
  "enrich_loop session sc rs st = (out, st') \<Longrightarrow>
   \<forall>r \<in> set rs. normalize_title (title r) \<in> dom (cache st')"
proof
  assume run: "enrich_loop session sc rs st = (out, st')"
  fix r assume "r \<in> set rs"
  then obtain i where "i < length rs" "rs ! i = r" by (auto simp: in_set_conv_nth)
  with enrich_loop_outputs [OF run] show "normalize_title (title r) \<in> dom (cache st')"
    by blast
qed

text \<open>
  C6: when the normalized title of every record is a key of the loaded cache, the run
  sends no query and leaves the cache as it was. The cache a completed run over the same
  records leaves is such a cache: a second run from it sends no query and returns the same
  enriched records.
\<close>

theorem cached_run_issues_no_queries:
  "((\<forall>r \<in> set records. normalize_title (title r) \<in> dom loaded) \<longrightarrow>
      queries (snd (enrich_records session sc loaded records)) = []
      \<and> cache (snd (enrich_records session sc loaded records)) = loaded)
   \<and> queries (snd (enrich_records session sc
         (cache (snd (enrich_records session0 sc0 loaded0 records))) records)) = []
   \<and> fst (enrich_records session sc
         (cache (snd (enrich_records session0 sc0 loaded0 records))) records)
       = fst (enrich_records session0 sc0 loaded0 records)"
proof (intro conjI impI)
  assume "\<forall>r \<in> set records. normalize_title (title r) \<in> dom loaded"
  then have *: "enrich_records session sc loaded records
     = (map (\<lambda>r. enrich_one r (the (loaded (normalize_title (title r))))) records,
        \<lparr>cache = loaded, queries = []\<rparr>)"
    unfolding enrich_records_def by (subst enrich_loop_all_cached) simp_all
  show "queries (snd (enrich_records session sc loaded records)) = []" by (simp add: *)
  show "cache (snd (enrich_records session sc loaded records)) = loaded" by (simp add: *)
next
  obtain out st1 where r0: "enrich_records session0 sc0 loaded0 records = (out, st1)"
    by (cases "enrich_records session0 sc0 loaded0 records")
  have cov: "\<forall>r \<in> set records. normalize_title (title r) \<in> dom (cache st1)"
    using enrich_loop_covers [OF r0 [unfolded enrich_records_def]] .
  have *: "enrich_records session sc (cache st1) records
     = (map (\<lambda>r. enrich_one r (the (cache st1 (normalize_title (title r))))) records,
        \<lparr>cache = cache st1, queries = []\<rparr>)"
    unfolding enrich_records_def using cov by (subst enrich_loop_all_cached) simp_all
  show "queries (snd (enrich_records session sc
         (cache (snd (enrich_records session0 sc0 loaded0 records))) records)) = []"
    by (simp add: r0 *)
  have "out = map (\<lambda>r. enrich_one r (the (cache st1 (normalize_title (title r))))) records"
  proof (rule nth_equalityI)
    show "length out = length (map (\<lambda>r. enrich_one r (the (cache st1 (normalize_title (title r))))) records)"
      using enrich_loop_outputs [OF r0 [unfolded enrich_records_def]] by simp
  next
    fix i assume "i < length out"
    then have "i < length records"
      using enrich_loop_outputs [OF r0 [unfolded enrich_records_def]] by simp
    then show "out ! i = map (\<lambda>r. enrich_one r (the (cache st1 (normalize_title (title r))))) records ! i"
      using enrich_loop_outputs [OF r0 [unfolded enrich_records_def]] by auto
  qed
  then show "fst (enrich_records session sc
         (cache (snd (enrich_records session0 sc0 loaded0 records))) records)
       = fst (enrich_records session0 sc0 loaded0 records)"
    by (simp add: r0 *)
qed

theorem cached_run_issues_no_queries_witness:
  "normalize_title (title test_paper) \<in> dom [''test paper'' \<mapsto> padded_entry]
   \<and> queries (snd (enrich_records sample_session sample_score [''test paper'' \<mapsto> padded_entry] [test_paper])) = []
   \<and> queries (snd (enrich_records failing_session sample_score
         (cache (snd (enrich_records sample_session sample_score Map.empty [test_paper]))) [test_paper])) = []"
  using cached_run_issues_no_queries [where records = "[test_paper]"
      and loaded = "[''test paper'' \<mapsto> padded_entry]" and session = sample_session and sc = sample_score]
    cached_run_issues_no_queries [where records = "[test_paper]" and session = failing_session
      and sc = sample_score and ?session0.0 = sample_session and ?sc0.0 = sample_score
      and ?loaded0.0 = Map.empty]
  by (simp add: test_paper_fields normalize_title_samples)

section \<open>The selection of the best candidate\<close>

lemma scores_Nil [simp]: "scores sc n [] = []"
  by (simp add: scores_def map_filter_simps)

lemma scores_Cons:
  "scores sc n (it # items) =
     (case item_score sc n it of None \<Rightarrow> scores sc n items | Some s \<Rightarrow> s # scores sc n items)"
  by (simp add: scores_def map_filter_simps split: option.splits)

lemma Max_insert_below:
  fixes s :: rat
  assumes "finite A" and "x \<in> A" and "s \<le> x"
  shows "Max (insert s A) = Max A"
proof -
  have "x \<le> Max A" using assms(1,2) by (rule Max_ge)
  with assms(3) have "s \<le> Max A" by simp
  moreover have "A \<noteq> {}" using assms(2) by auto
  ultimately show ?thesis using assms(1) by (simp add: max.absorb2)
qed

lemma Max_insert_swap_below:
  fixes s :: rat
  assumes "finite T" and "x \<le> s"
  shows "Max (insert s (insert x T)) = Max (insert s T)"
proof -
  have "Max (insert x (insert s T)) = Max (insert s T)"
    using assms by (intro Max_insert_below [of _ s]) simp_all
  then show ?thesis by (simp add: insert_commute)
qed

lemma select_best_score:
  "snd (select_best sc n items (b, s)) = Max (insert s (set (scores sc n items)))"
proof (induction items arbitrary: b s)
  case Nil
  then show ?case by simp
next
  case (Cons it items)
  show ?case
  proof (cases "item_score sc n it")
    case None
    then show ?thesis using Cons by (simp add: scores_Cons)
  next
    case (Some x)
    have fin: "finite (set (scores sc n items))" by simp
    show ?thesis
    proof (cases "x > s")
      case True
      then have "Max (insert s (insert x (set (scores sc n items))))
          = Max (insert x (set (scores sc n items)))"
        using fin by (intro Max_insert_below [of _ x]) simp_all
      with True Some Cons show ?thesis by (simp add: scores_Cons)
    next
      case False
      then have "Max (insert s (insert x (set (scores sc n items))))
          = Max (insert s (set (scores sc n items)))"
        using fin by (intro Max_insert_swap_below) simp_all
      with False Some Cons show ?thesis by (simp add: scores_Cons)
    qed
  qed
qed

text \<open>The item kept is the first one whose score is the final best score, when some score
  exceeds the initial one; otherwise the initial item is kept.\<close>

lemma select_best_item:
  "fst (select_best sc n items (b, s)) =
     (if \<exists>x \<in> set (scores sc n items). x > s
      then find (\<lambda>it. item_score sc n it = Some (Max (insert s (set (scores sc n items))))) items
      else b)"
proof (induction items arbitrary: b s)
  case Nil
  then show ?case by simp
next
  case (Cons it items)
  let ?T = "set (scores sc n items)"
  have fin: "finite ?T" by simp
  show ?case
  proof (cases "item_score sc n it")
    case None
    then show ?thesis using Cons by (simp add: scores_Cons)
  next
    case (Some x)
    show ?thesis
    proof (cases "x > s")
      case True
      have m: "Max (insert s (insert x ?T)) = Max (insert x ?T)"
        using True fin by (intro Max_insert_below [of _ x]) simp_all
      show ?thesis
      proof (cases "\<exists>y \<in> ?T. y > x")
        case True
        then have "Max (insert x ?T) \<noteq> x"
          using fin by (metis Max_ge finite_insert insertCI leD)
        with True \<open>x > s\<close> Some Cons m show ?thesis
          by (auto simp: scores_Cons)
      next
        case False
        then have "Max (insert x ?T) = x"
          using fin by (intro Max_eqI) (auto simp: not_less)
        with False \<open>x > s\<close> Some Cons m show ?thesis
          by (auto simp: scores_Cons)
      qed
    next
      case False
      have m: "Max (insert s (insert x ?T)) = Max (insert s ?T)"
        using False fin by (intro Max_insert_swap_below) simp_all
      show ?thesis
      proof (cases "\<exists>y \<in> ?T. y > s")
        case True
        then have "Max (insert s ?T) > s"
          using fin by (metis Max_ge finite_insert insertCI less_le_trans)
        then have "Max (insert s ?T) \<noteq> x" using False by auto
        with True False Some Cons m show ?thesis
          by (auto simp: scores_Cons)
      next
        case F2: False
        with False Some Cons m show ?thesis
          by (auto simp: scores_Cons)
      qed
    qed
  qed
qed

lemma in_scores_iff:
  "x \<in> set (scores sc n items) \<longleftrightarrow> (\<exists>it \<in> set items. item_score sc n it = Some x)"
  by (induction items) (auto simp: scores_Cons split: option.splits)

lemma info_status_simps:
  "info_status (ok_info best s) = Some ''ok''"
  "info_status (no_match_info s) = Some ''no_match''"
  "info_status (error_info exc) = Some ''error''"
  by (simp_all add: ok_info_def no_match_info_def error_info_def Let_def)

lemma query_crossref_items:
  assumes "cache st (normalize_title t) = None" and "session t = Items items"
  shows "query_crossref session sc t st =
     (let n = normalize_title t; ss = scores sc n items;
          info = (if \<exists>x \<in> set ss. x > 0 then
                    (case find (\<lambda>it. item_score sc n it = Some (Max (set ss))) items of
                       None \<Rightarrow> no_match_info (Max (set ss))
                     | Some best \<Rightarrow> if Max (set ss) < threshold then no_match_info (Max (set ss))
                                    else ok_info best (Max (set ss)))
                  else no_match_info (Max (insert 0 (set ss))))
      in (info, store t n info st))"
proof -
  let ?n = "normalize_title t"
  let ?ss = "scores sc ?n items"
  obtain b s where sb: "select_best sc ?n items (None, 0) = (b, s)"
    by (cases "select_best sc ?n items (None, 0)")
  have s: "s = Max (insert 0 (set ?ss))"
    using select_best_score [of sc ?n items None 0] sb by simp
  have b: "b = (if \<exists>x \<in> set ?ss. x > 0
      then find (\<lambda>it. item_score sc ?n it = Some (Max (insert 0 (set ?ss)))) items else None)"
    using select_best_item [of sc ?n items None 0] sb by simp
  show ?thesis
  proof (cases "\<exists>x \<in> set ?ss. x > 0")
    case True
    then obtain x where x: "x \<in> set ?ss" "0 \<le> x" by auto
    have m: "Max (insert 0 (set ?ss)) = Max (set ?ss)"
      using x by (intro Max_insert_below [of _ x]) simp_all
    from True b m have b': "b = find (\<lambda>it. item_score sc ?n it = Some (Max (set ?ss))) items"
      by simp
    from assms sb s m b' True show ?thesis
      by (simp add: query_crossref_def Let_def split: option.splits)
  next
    case False
    with b have "b = None" by simp
    with assms sb s False show ?thesis
      by (simp add: query_crossref_def Let_def)
  qed
qed

text \<open>
  C2: for a query that reaches the network and gets items, with the scores of the items
  that have a title: the outcome is \<open>no_match\<close> exactly when there is no score or the
  highest score is below the threshold; otherwise the first item with the highest score is
  selected and the outcome is its \<open>ok\<close> entry with that score. A highest score equal to the
  threshold is accepted, one below it is a \<open>no_match\<close>. The outcome is recorded in the cache
  under the normalized title.
\<close>

theorem best_candidate_selected:
  assumes "cache st (normalize_title t) = None" and "session t = Items items"
  shows "(let n = normalize_title t; ss = scores sc n items;
              info = fst (query_crossref session sc t st);
              st' = snd (query_crossref session sc t st)
          in ((info_status info = Some ''no_match'') = (ss = [] \<or> Max (set ss) < threshold))
           \<and> (ss \<noteq> [] \<and> threshold \<le> Max (set ss) \<longrightarrow>
                (\<exists>best. find (\<lambda>it. item_score sc n it = Some (Max (set ss))) items = Some best
                   \<and> info = ok_info best (Max (set ss))))
           \<and> (ss \<noteq> [] \<and> Max (set ss) = threshold \<longrightarrow> info_status info = Some ''ok'')
           \<and> (ss \<noteq> [] \<and> Max (set ss) < threshold \<longrightarrow> info_status info = Some ''no_match'')
           \<and> cache st' n = Some info)"
proof -
  let ?n = "normalize_title t"
  let ?ss = "scores sc ?n items"
  let ?M = "Max (set ?ss)"
  note q = query_crossref_items [where session = session and sc = sc, OF assms]
  have c: "cache (snd (query_crossref session sc t st)) ?n
      = Some (fst (query_crossref session sc t st))"
    by (rule query_crossref_cached) simp
  show ?thesis
  proof (cases "\<exists>x \<in> set ?ss. x > 0")
    case True
    then obtain x where x: "x \<in> set ?ss" "0 < x" by auto
    then have ne: "?ss \<noteq> []" by auto
    then have "?M \<in> set ?ss" by (intro Max_in) simp_all
    then obtain it where "it \<in> set items" "item_score sc ?n it = Some ?M"
      by (auto simp: in_scores_iff)
    then have "find (\<lambda>it. item_score sc ?n it = Some ?M) items \<noteq> None"
      by (auto simp: find_None_iff)
    then obtain best where best: "find (\<lambda>it. item_score sc ?n it = Some ?M) items = Some best"
      by auto
    from True best ne c show ?thesis
      by (simp add: q Let_def info_status_simps del: Max_less_iff)
  next
    case False
    have "?ss = [] \<or> ?M < threshold"
    proof (cases "?ss = []")
      case True
      then show ?thesis by simp
    next
      case ne: False
      then have "?M \<in> set ?ss" by (intro Max_in) simp_all
      with False have "?M \<le> 0" by (auto simp: not_less)
      with threshold_bounds(1) show ?thesis by simp
    qed
    with False c show ?thesis
      by (auto simp: q Let_def info_status_simps simp del: Max_less_iff)
  qed
qed

lemma item_score_samples:
  "item_score sample_score ''test paper'' other_item = Some (1 / 2)"
  "item_score sample_score ''test paper'' test_item = Some 1"
  "item_score boundary_score n other_item = Some threshold"
  "item_score boundary_score n test_item = Some threshold"
  by (simp_all add: item_score_def other_item_def test_item_def sample_score_def
        boundary_score_def normalize_title_samples)

lemma scores_samples:
  "scores sample_score ''test paper'' [other_item, test_item] = [1 / 2, 1]"
  "scores sample_score ''test paper'' [other_item] = [1 / 2]"
  "scores boundary_score n [other_item, test_item] = [threshold, threshold]"
  by (simp_all add: scores_Cons item_score_samples)

theorem best_candidate_selected_witness:
  "cache \<lparr>cache = Map.empty, queries = []\<rparr> (normalize_title ''Test Paper'') = None
   \<and> sample_session ''Test Paper'' = Items [other_item, test_item]
   \<and> fst (query_crossref sample_session sample_score ''Test Paper''
            \<lparr>cache = Map.empty, queries = []\<rparr>) = ok_info test_item 1
   \<and> info_status (fst (query_crossref sample_session boundary_score ''Test Paper''
            \<lparr>cache = Map.empty, queries = []\<rparr>)) = Some ''ok''
   \<and> info_status (fst (query_crossref (\<lambda>_. Items [other_item]) sample_score ''Test Paper''
            \<lparr>cache = Map.empty, queries = []\<rparr>)) = Some ''no_match''"
proof -
  let ?st = "\<lparr>cache = Map.empty, queries = []\<rparr>"
  have h1: "cache ?st (normalize_title ''Test Paper'') = None" by simp
  have h2: "sample_session ''Test Paper'' = Items [other_item, test_item]"
    by (simp add: sample_session_def)
  have h3: "(\<lambda>_. Items [other_item]) ''Test Paper'' = Items [other_item]" by simp
  have a: "fst (query_crossref sample_session sample_score ''Test Paper'' ?st)
      = ok_info test_item 1"
    using best_candidate_selected [where session = sample_session and sc = sample_score, OF h1 h2]
      threshold_bounds
    by (simp add: Let_def normalize_title_samples scores_samples item_score_samples
          del: Max_less_iff)
  have b: "info_status (fst (query_crossref sample_session boundary_score ''Test Paper'' ?st))
      = Some ''ok''"
    using best_candidate_selected [where session = sample_session and sc = boundary_score,
        OF h1 h2]
    by (simp add: Let_def normalize_title_samples scores_samples del: Max_less_iff)
  have c: "info_status (fst (query_crossref (\<lambda>_. Items [other_item]) sample_score
             ''Test Paper'' ?st)) = Some ''no_match''"
    using best_candidate_selected [where session = "\<lambda>_. Items [other_item]"
        and sc = sample_score, OF h1 h3] threshold_bounds
    by (simp add: Let_def normalize_title_samples scores_samples del: Max_less_iff)
  from h1 h2 a b c show ?thesis by simp
qed

section \<open>Deduplication across scopes\<close>

lemma add_records_acc:
  "add_records rs (comb, seen) =
     (comb @ fst (add_records rs ([], seen)), seen \<union> record_key ` set rs)"
proof (induction rs arbitrary: comb seen)
  case Nil
  then show ?case by simp
next
  case (Cons r rs)
  show ?case
  proof (cases "record_key r \<in> seen")
    case True
    then show ?thesis using Cons [of comb seen] by (auto simp: Let_def)
  next
    case False
    have 1: "add_records rs (comb @ [r], insert (record_key r) seen) =
        ((comb @ [r]) @ fst (add_records rs ([], insert (record_key r) seen)),
         insert (record_key r) seen \<union> record_key ` set rs)" by (rule Cons)
    have 2: "add_records rs ([r], insert (record_key r) seen) =
        ([r] @ fst (add_records rs ([], insert (record_key r) seen)),
         insert (record_key r) seen \<union> record_key ` set rs)" by (rule Cons)
    from False show ?thesis by (simp add: Let_def 1 2)
  qed
qed

lemma add_records_kept:
  "add_records rs (comb, seen) = (comb @ kept seen rs, seen \<union> record_key ` set rs)"
  unfolding kept_def by (rule add_records_acc)

lemma kept_Nil [simp]: "kept seen [] = []"
  by (simp add: kept_def)

lemma kept_Cons:
  "kept seen (r # rs) =
     (if record_key r \<in> seen then kept seen rs else r # kept (insert (record_key r) seen) rs)"
  by (simp add: kept_def Let_def add_records_acc [of rs "[r]"])

lemma kept_append:
  "kept seen (xs @ ys) = kept seen xs @ kept (seen \<union> record_key ` set xs) ys"
  by (induction xs arbitrary: seen) (simp_all add: kept_Cons insert_absorb)

lemma add_years_kept:
  "add_years scraped ys (comb, seen) =
     (comb @ kept seen (concat (map (\<lambda>y. get_scope scraped (Some y)) ys)),
      seen \<union> record_key ` set (concat (map (\<lambda>y. get_scope scraped (Some y)) ys)))"
proof (induction ys arbitrary: comb seen)
  case Nil
  then show ?case by simp
next
  case (Cons y ys)
  show ?case
    by (simp add: add_records_kept Cons kept_append Un_assoc image_Un)
qed

lemma combine_records_kept:
  "combine_records current_year scraped = kept {} (all_scopes current_year scraped)"
  by (simp add: combine_records_def all_scopes_def add_years_kept add_records_kept kept_append)

lemma kept_unseen: "r \<in> set (kept seen rs) \<Longrightarrow> record_key r \<notin> seen"
  by (induction rs arbitrary: seen) (auto simp: kept_Cons split: if_splits)

lemma kept_distinct: "distinct (map record_key (kept seen rs))"
  by (induction rs arbitrary: seen) (auto simp: kept_Cons dest: kept_unseen)

lemma kept_subseq: "subseq (kept seen rs) rs"
  by (induction rs arbitrary: seen) (auto simp: kept_Cons)

lemma kept_first:
  "r \<in> set (kept seen rs) \<longleftrightarrow>
     record_key r \<notin> seen \<and> find (\<lambda>x. record_key x = record_key r) rs = Some r"
proof (induction rs arbitrary: seen)
  case Nil
  then show ?case by simp
next
  case (Cons a rs)
  show ?case
  proof (cases "record_key a = record_key r")
    case True
    then show ?thesis using Cons [of "insert (record_key a) seen"] Cons [of seen]
      by (auto simp: kept_Cons)
  next
    case False
    then show ?thesis using Cons [of "insert (record_key a) seen"] Cons [of seen]
      by (auto simp: kept_Cons)
  qed
qed

lemma kept_keys: "record_key ` set (kept seen rs) = record_key ` set rs - seen"
proof (induction rs arbitrary: seen)
  case Nil
  then show ?case by simp
next
  case (Cons a rs)
  then show ?case by (auto simp: kept_Cons)
qed

lemma record_key_cluster:
  "c \<noteq> [] \<Longrightarrow> cluster_id r = Some c \<Longrightarrow> record_key r = ''cluster:'' @ c"
  by (simp add: record_key_def)

lemma record_key_cluster_iff:
  "c \<noteq> [] \<Longrightarrow> record_key r = ''cluster:'' @ c \<longleftrightarrow> cluster_id r = Some c"
  by (auto simp: record_key_def split: option.splits)

lemma filter_by_key_le1:
  "distinct (map f xs) \<Longrightarrow> \<forall>x \<in> set xs. P x \<longrightarrow> f x = k \<Longrightarrow> length (filter P xs) \<le> 1"
proof (induction xs)
  case Nil
  then show ?case by simp
next
  case (Cons a xs)
  show ?case
  proof (cases "P a")
    case True
    with Cons.prems have "\<forall>x \<in> set xs. \<not> P x" by (auto simp: image_iff)
    then have "filter P xs = []" by (simp add: filter_empty_conv)
    with True show ?thesis by simp
  next
    case False
    with Cons show ?thesis by simp
  qed
qed

lemma record_key_title_iff:
  "record_key r = ''title:'' @ n \<longleftrightarrow>
     (cluster_id r = None \<or> cluster_id r = Some []) \<and> normalize_title (title r) = n"
  by (auto simp: record_key_def split: option.splits)

lemma exactly_one_with_key:
  assumes d: "distinct (map f xs)" and k: "k \<in> f ` set xs" and p: "\<And>x. P x \<longleftrightarrow> f x = k"
  shows "length (filter P xs) = 1"
proof -
  from k obtain x where x: "x \<in> set xs" and fx: "k = f x" by (rule imageE)
  from fx have "P x" by (simp only: p)
  with x have "filter P xs \<noteq> []" by (auto simp: filter_empty_conv)
  then have 1: "1 \<le> length (filter P xs)" by (cases "filter P xs") simp_all
  have 2: "length (filter P xs) \<le> 1"
    using d by (rule filter_by_key_le1 [where k = k]) (simp add: p)
  from 1 2 show ?thesis by simp
qed

text \<open>
  C4: the identity key of a record is its cluster id when that is present (not empty, as the
  code tests it) and its normalized title otherwise, under prefixes that keep the two kinds
  apart. The combined records have pairwise different identity keys; they are the records of
  the scopes in scope order with some left out; a record is among them exactly when it is
  the first record with its key in that order, so every later record with the key is
  dropped and every key is kept. So for every cluster id that is present on some record of
  some scope, exactly one combined record has it; and for every record without a cluster
  id, exactly one combined record without a cluster id has its normalized title.
\<close>

theorem first_occurrence_kept:
  "(let out = combine_records current_year scraped;
        every = all_scopes current_year scraped
    in distinct (map record_key out)
     \<and> subseq out every
     \<and> (\<forall>r. r \<in> set out \<longleftrightarrow> find (\<lambda>x. record_key x = record_key r) every = Some r)
     \<and> record_key ` set out = record_key ` set every
     \<and> (\<forall>c. c \<noteq> [] \<and> (\<exists>r \<in> set every. cluster_id r = Some c) \<longrightarrow>
            length (filter (\<lambda>r. cluster_id r = Some c) out) = 1)
     \<and> (\<forall>r \<in> set every. cluster_id r = None \<or> cluster_id r = Some [] \<longrightarrow>
            length (filter (\<lambda>x. (cluster_id x = None \<or> cluster_id x = Some [])
                          \<and> normalize_title (title x) = normalize_title (title r)) out) = 1))
   \<and> (\<forall>r c. cluster_id r = Some c \<and> c \<noteq> [] \<longrightarrow> record_key r = ''cluster:'' @ c)
   \<and> (\<forall>r. cluster_id r = None \<or> cluster_id r = Some [] \<longrightarrow>
          record_key r = ''title:'' @ normalize_title (title r))"
proof -
  let ?out = "combine_records current_year scraped"
  let ?every = "all_scopes current_year scraped"
  have k: "?out = kept {} ?every" by (rule combine_records_kept)
  have d: "distinct (map record_key ?out)" unfolding k by (rule kept_distinct)
  have s: "subseq ?out ?every" unfolding k by (rule kept_subseq)
  have f: "\<forall>r. r \<in> set ?out \<longleftrightarrow> find (\<lambda>x. record_key x = record_key r) ?every = Some r"
    unfolding k by (simp add: kept_first)
  have e: "record_key ` set ?out = record_key ` set ?every"
    unfolding k by (simp add: kept_keys)
  have c: "\<forall>c. c \<noteq> [] \<and> (\<exists>r \<in> set ?every. cluster_id r = Some c) \<longrightarrow>
            length (filter (\<lambda>r. cluster_id r = Some c) ?out) = 1"
  proof (intro allI impI, elim conjE bexE)
    fix c r assume c: "c \<noteq> []" and r: "r \<in> set ?every" "cluster_id r = Some c"
    from r(2) have "record_key r = ''cluster:'' @ c" by (rule record_key_cluster [OF c])
    with r(1) have "''cluster:'' @ c \<in> record_key ` set ?every" by (metis imageI)
    then have m: "''cluster:'' @ c \<in> record_key ` set ?out" by (simp only: e)
    show "length (filter (\<lambda>r. cluster_id r = Some c) ?out) = 1"
      using d m by (rule exactly_one_with_key) (simp only: record_key_cluster_iff [OF c])
  qed
  have t: "\<forall>r \<in> set ?every. cluster_id r = None \<or> cluster_id r = Some [] \<longrightarrow>
            length (filter (\<lambda>x. (cluster_id x = None \<or> cluster_id x = Some [])
                          \<and> normalize_title (title x) = normalize_title (title r)) ?out) = 1"
  proof (intro ballI impI)
    fix r assume r: "r \<in> set ?every" and u: "cluster_id r = None \<or> cluster_id r = Some []"
    let ?n = "normalize_title (title r)"
    from u have "record_key r = ''title:'' @ ?n" by (simp only: record_key_title_iff)
    with r have "''title:'' @ ?n \<in> record_key ` set ?every" by (metis imageI)
    then have m: "''title:'' @ ?n \<in> record_key ` set ?out" by (simp only: e)
    show "length (filter (\<lambda>x. (cluster_id x = None \<or> cluster_id x = Some [])
                          \<and> normalize_title (title x) = ?n) ?out) = 1"
      using d m by (rule exactly_one_with_key) (simp only: record_key_title_iff)
  qed
  have kc: "\<forall>r c. cluster_id r = Some c \<and> c \<noteq> [] \<longrightarrow> record_key r = ''cluster:'' @ c"
    by (simp add: record_key_def)
  have kt: "\<forall>r. cluster_id r = None \<or> cluster_id r = Some [] \<longrightarrow>
          record_key r = ''title:'' @ normalize_title (title r)"
    by (auto simp: record_key_def)
  show ?thesis unfolding Let_def by (intro conjI) (rule d s f e c t kc kt)+
qed

lemma upto_2017: "[2016..2017] = [2016, 2017::int]"
  by (simp add: upto_rec_numeral)

lemma sample_all:
  "all_scopes 2017 sample_scopes
     = [clustered, test_paper, retitled, other_paper, relisted, test_paper]"
  by (simp add: all_scopes_def get_scope_def sample_scopes_def upto_2017)

lemma sample_keys:
  "record_key clustered = ''cluster:c1''"
  "record_key relisted = ''cluster:c1''"
  "record_key test_paper = ''title:test paper''"
  "record_key retitled = ''title:test paper''"
  "record_key other_paper = ''title:another work''"
  by (simp_all add: record_key_def clustered_def relisted_def retitled_def other_paper_def
        test_paper_def normalize_title_samples)

lemma sample_combined:
  "combine_records 2017 sample_scopes = [clustered, test_paper, other_paper]"
  by (simp add: combine_records_def get_scope_def sample_scopes_def upto_2017 sample_keys Let_def)

theorem first_occurrence_kept_witness:
  "''c1'' \<noteq> [] \<and> clustered \<in> set (all_scopes 2017 sample_scopes)
   \<and> cluster_id clustered = Some ''c1''
   \<and> retitled \<in> set (all_scopes 2017 sample_scopes) \<and> cluster_id retitled = None
   \<and> all_scopes 2017 sample_scopes
       = [clustered, test_paper, retitled, other_paper, relisted, test_paper]
   \<and> combine_records 2017 sample_scopes = [clustered, test_paper, other_paper]
   \<and> length (filter (\<lambda>r. cluster_id r = Some ''c1'') (combine_records 2017 sample_scopes)) = 1
   \<and> length (filter (\<lambda>x. (cluster_id x = None \<or> cluster_id x = Some [])
                  \<and> normalize_title (title x) = normalize_title (title retitled))
               (combine_records 2017 sample_scopes)) = 1
   \<and> record_key retitled = ''title:'' @ normalize_title (title retitled)
   \<and> distinct (map record_key (combine_records 2017 sample_scopes))"
proof -
  note T = first_occurrence_kept [of 2017 sample_scopes, unfolded Let_def]
  have h: "clustered \<in> set (all_scopes 2017 sample_scopes)"
    and h': "retitled \<in> set (all_scopes 2017 sample_scopes)"
    by (simp_all add: sample_all)
  have c: "cluster_id clustered = Some ''c1''" and u: "cluster_id retitled = None"
    by (simp_all add: clustered_def retitled_def test_paper_def)
  from T h c have 1:
    "length (filter (\<lambda>r. cluster_id r = Some ''c1'') (combine_records 2017 sample_scopes)) = 1"
    by blast
  from T h' u have 2:
    "length (filter (\<lambda>x. (cluster_id x = None \<or> cluster_id x = Some [])
                  \<and> normalize_title (title x) = normalize_title (title retitled))
               (combine_records 2017 sample_scopes)) = 1"
    by blast
  from T u have 3: "record_key retitled = ''title:'' @ normalize_title (title retitled)"
    by blast
  from T have 4: "distinct (map record_key (combine_records 2017 sample_scopes))"
    by blast
  from h h' c u 1 2 3 4 sample_all sample_combined show ?thesis by simp
qed

section \<open>Loading the persisted stores\<close>

text \<open>
  C8, for the two kinds of file that the loaders handle: when the file is missing, and when
  it is text that \<open>json.loads\<close> rejects, no loader raises; \<open>load_crossref_cache\<close> returns an
  empty mapping, \<open>load_cached_records\<close> an empty list of records, and \<open>load_json\<close> returns
  \<open>None\<close>.
\<close>

theorem stores_load_without_raising:
  "load_crossref_cache Missing = Inr [] \<and> load_crossref_cache Malformed = Inr []
   \<and> load_cached_records Missing = Inr [] \<and> load_cached_records Malformed = Inr []
   \<and> load_json Missing = Inr JNull \<and> load_json Malformed = Inr JNull"
  by (simp add: load_crossref_cache_def load_cached_records_def load_json_def)

text \<open>
  C8 as stated fails for \<open>load_json\<close>, the loader of the raw records of
  \<open>openalex_citations.py\<close>: from a missing file it returns \<open>None\<close>, which is not an empty list.
\<close>

theorem load_json_missing_not_empty_list:
  "load_json Missing = Inr JNull \<and> load_json Missing \<noteq> Inr (JArr [])"
  by (simp add: load_json_def)

text \<open>
  A file that is not UTF-8 is a third kind: \<open>read_text\<close> raises \<open>UnicodeDecodeError\<close>, the
  loaders catch \<open>JSONDecodeError\<close> only, and the exception reaches the caller.
\<close>

lemma undecodable_file_raises:
  "load_crossref_cache Undecodable = Inl UnicodeDecodeError
   \<and> load_cached_records Undecodable = Inl UnicodeDecodeError
   \<and> load_json Undecodable = Inl UnicodeDecodeError"
  by (simp add: load_crossref_cache_def load_cached_records_def load_json_def)

end
